theory Spec2Isabelle
  imports Main
begin

section \<open>Clock readings and how the programs print them\<close>

text \<open>
  Both scripts read the clock through a library: the shell pipeline through
  \<^verbatim>\<open>date +"%Y-%m-%d %H:%M:%S"\<close> (local time), the callback listener through
  \<^verbatim>\<open>new Date().toISOString()\<close> (UTC, millisecond resolution). A clock reading is the
  broken-down time the library starts from.
\<close>

record datetime =
  year :: nat
  month :: nat
  day :: nat
  hour :: nat
  minute :: nat
  second :: nat
  millis :: nat

definition digit :: "nat \<Rightarrow> char" where
  "digit d = ''0123456789'' ! (d mod 10)"

definition is_digit :: "char \<Rightarrow> bool" where
  "is_digit c = (c \<in> set ''0123456789'')"

text \<open>\<open>pad n k\<close>: the last \<open>n\<close> decimal digits of \<open>k\<close>, zero filled (a fixed-width field).\<close>

fun pad :: "nat \<Rightarrow> nat \<Rightarrow> string" where
  "pad 0 k = []"
| "pad (Suc n) k = pad n (k div 10) @ [digit k]"

text \<open>\<open>dec k\<close>: \<open>k\<close> in decimal, as many digits as it needs (\<^verbatim>\<open>%Y\<close> does not pad).\<close>

fun dec :: "nat \<Rightarrow> string" where
  "dec k = (if k < 10 then [digit k] else dec (k div 10) @ [digit k])"

declare dec.simps [simp del]

text \<open>
  The conversions of \<^verbatim>\<open>date +FORMAT\<close> that the pipeline's format string uses; every other
  character of the format is copied.
\<close>

definition conversion :: "char \<Rightarrow> datetime \<Rightarrow> string" where
  "conversion c t =
     (if c = CHR ''Y'' then dec (year t)
      else if c = CHR ''m'' then pad 2 (month t)
      else if c = CHR ''d'' then pad 2 (day t)
      else if c = CHR ''H'' then pad 2 (hour t)
      else if c = CHR ''M'' then pad 2 (minute t)
      else if c = CHR ''S'' then pad 2 (second t)
      else [CHR ''%'', c])"

fun strftime :: "string \<Rightarrow> datetime \<Rightarrow> string" where
  "strftime [] t = []"
| "strftime [c] t = [c]"
| "strftime (c # d # fmt) t =
     (if c = CHR ''%'' then conversion d t @ strftime fmt t
      else c # strftime (d # fmt) t)"

text \<open>
  A template such as \<^verbatim>\<open>YYYY-MM-DD HH:MM:SS\<close>: a letter of the template stands for one
  decimal digit, every other character for itself.
\<close>

definition is_letter :: "char \<Rightarrow> bool" where
  "is_letter c = (c \<in> set ''YMDHS'')"

fun matches_template :: "string \<Rightarrow> string \<Rightarrow> bool" where
  "matches_template [] [] = True"
| "matches_template (t # ts) (c # cs) =
     ((if is_letter t then is_digit c else c = t) \<and> matches_template ts cs)"
| "matches_template [] (c # cs) = False"
| "matches_template (t # ts) [] = False"

text \<open>A reading of the wall clock in the years in which \<^verbatim>\<open>%Y\<close> prints four digits.\<close>

definition wall_clock :: "datetime \<Rightarrow> bool" where
  "wall_clock t =
     (1000 \<le> year t \<and> year t \<le> 9999 \<and> 1 \<le> month t \<and> month t \<le> 12 \<and>
      1 \<le> day t \<and> day t \<le> 31 \<and> hour t \<le> 23 \<and> minute t \<le> 59 \<and>
      second t \<le> 60 \<and> millis t \<le> 999)"

section \<open>The pipeline: \<^verbatim>\<open>scripts/auto-sync-deploy.sh\<close>\<close>

text \<open>
  The script runs under \<^verbatim>\<open>set -euo pipefail\<close>. Every command it starts is an external
  program (npm, git, date) or a shell builtin; the environment of a run gives the exit
  status of each, and what the two \<^verbatim>\<open>date\<close> calls print. A command that is the condition
  of an \<^verbatim>\<open>if\<close> chooses the branch; any other command that returns a non-zero status ends
  the script with that status (\<^verbatim>\<open>set -e\<close>). \<^verbatim>\<open>echo\<close> is taken to succeed.
\<close>

record env =
  root_dir :: nat       \<comment> \<open>line 4: \<^verbatim>\<open>ROOT_DIR="$(cd ... && pwd)"\<close>\<close>
  cd_root :: nat        \<comment> \<open>line 5: \<^verbatim>\<open>cd "$ROOT_DIR"\<close>\<close>
  date_plain :: string  \<comment> \<open>line 9: what \<^verbatim>\<open>$(date)\<close> prints\<close>
  date_plain_status :: nat
  npm_sync :: nat       \<comment> \<open>line 12: \<^verbatim>\<open>npm run sync-bear --silent\<close>\<close>
  npm_build :: nat      \<comment> \<open>line 20: \<^verbatim>\<open>npm run build --silent\<close>\<close>
  cd_up :: nat          \<comment> \<open>line 27: \<^verbatim>\<open>cd "$ROOT_DIR/.."\<close>\<close>
  git_diff :: nat       \<comment> \<open>line 30: \<^verbatim>\<open>git diff --quiet -- docs\<close>; 0 when nothing differs\<close>
  date_status :: nat    \<comment> \<open>line 35: status of \<^verbatim>\<open>date +"%Y-%m-%d %H:%M:%S"\<close>\<close>
  now :: datetime       \<comment> \<open>line 35: the local time that call reads\<close>
  git_add :: nat        \<comment> \<open>line 39: \<^verbatim>\<open>git add docs\<close>\<close>
  git_commit :: nat     \<comment> \<open>line 40: \<^verbatim>\<open>git commit -m "$COMMIT_MSG"\<close>\<close>
  git_push :: nat       \<comment> \<open>line 48: \<^verbatim>\<open>git push\<close>\<close>

datatype cmd =
    ResolveRoot
  | CdRoot
  | DatePlain
  | NpmRunSyncBear
  | NpmRunBuild
  | CdUp
  | GitDiffQuietDocs
  | DateFormat string
  | GitAddDocs
  | GitCommit string
  | GitPush

datatype stream = Stdout | Stderr

text \<open>
  What a run leaves behind: the exit status of the process, the commands it started in
  order (each with the status it returned), and the lines the script itself wrote.
\<close>

record run =
  exit_code :: nat
  trace :: "(cmd \<times> nat) list"
  printed :: "(stream \<times> string) list"

definition exit_with :: "nat \<Rightarrow> run" where
  "exit_with k = \<lparr>exit_code = k, trace = [], printed = []\<rparr>"

definition ran :: "cmd \<Rightarrow> nat \<Rightarrow> run \<Rightarrow> run" where
  "ran c st r = r\<lparr>trace := (c, st) # trace r\<rparr>"

definition echo :: "stream \<Rightarrow> string \<Rightarrow> run \<Rightarrow> run" where
  "echo s l r = r\<lparr>printed := (s, l) # printed r\<rparr>"

definition LOG_PREFIX :: string where
  "LOG_PREFIX = ''[auto-sync]''"

definition commit_format :: string where
  "commit_format = ''%Y-%m-%d %H:%M:%S''"

definition COMMIT_MSG :: "env \<Rightarrow> string" where
  "COMMIT_MSG e = ''Auto update notes '' @ strftime commit_format (now e)"

text \<open>Lines 47 to 55: push.\<close>

definition push_stage :: "env \<Rightarrow> run" where
  "push_stage e =
     ran GitPush (git_push e)
       (if git_push e = 0 then
          echo Stdout (LOG_PREFIX @ '' push ok'')
            (echo Stdout (LOG_PREFIX @ '' done'') (exit_with 0))
        else echo Stderr (LOG_PREFIX @ '' git push failed'') (exit_with 1))"

text \<open>Lines 35 to 45: the commit message, \<^verbatim>\<open>git add\<close>, \<^verbatim>\<open>git commit\<close>.\<close>

definition commit_stage :: "env \<Rightarrow> run" where
  "commit_stage e =
     ran (DateFormat commit_format) (date_status e)
       (if date_status e \<noteq> 0 then exit_with (date_status e)
        else
          echo Stdout (LOG_PREFIX @ '' committing: '' @ COMMIT_MSG e)
            (ran GitAddDocs (git_add e)
               (if git_add e \<noteq> 0 then exit_with (git_add e)
                else
                  ran (GitCommit (COMMIT_MSG e)) (git_commit e)
                    (if git_commit e = 0 then
                       echo Stdout (LOG_PREFIX @ '' commit ok'') (push_stage e)
                     else
                       echo Stderr (LOG_PREFIX @ '' git commit failed'') (exit_with 1)))))"

text \<open>Lines 27 to 33: change of directory and the check for differences under \<^verbatim>\<open>docs\<close>.\<close>

definition diff_stage :: "env \<Rightarrow> run" where
  "diff_stage e =
     ran CdUp (cd_up e)
       (if cd_up e \<noteq> 0 then exit_with (cd_up e)
        else
          ran GitDiffQuietDocs (git_diff e)
            (if git_diff e = 0 then
               echo Stdout (LOG_PREFIX @ '' no changes in docs, nothing to commit'')
                 (exit_with 0)
             else commit_stage e))"

text \<open>Lines 19 to 25: build.\<close>

definition build_stage :: "env \<Rightarrow> run" where
  "build_stage e =
     ran NpmRunBuild (npm_build e)
       (if npm_build e = 0 then echo Stdout (LOG_PREFIX @ '' build ok'') (diff_stage e)
        else echo Stderr (LOG_PREFIX @ '' build FAILED'') (exit_with 1))"

text \<open>Lines 11 to 17: sync.\<close>

definition sync_stage :: "env \<Rightarrow> run" where
  "sync_stage e =
     ran NpmRunSyncBear (npm_sync e)
       (if npm_sync e = 0 then echo Stdout (LOG_PREFIX @ '' sync-bear ok'') (build_stage e)
        else echo Stderr (LOG_PREFIX @ '' sync-bear FAILED'') (exit_with 1))"

text \<open>
  Lines 4 to 9, then the stages. The status of the \<^verbatim>\<open>date\<close> inside the first
  \<^verbatim>\<open>echo\<close> is ignored by the shell: the status of that line is the one of \<^verbatim>\<open>echo\<close>.
\<close>

definition auto_sync_deploy :: "env \<Rightarrow> run" where
  "auto_sync_deploy e =
     ran ResolveRoot (root_dir e)
       (if root_dir e \<noteq> 0 then exit_with (root_dir e)
        else
          ran CdRoot (cd_root e)
            (if cd_root e \<noteq> 0 then exit_with (cd_root e)
             else
               ran DatePlain (date_plain_status e)
                 (echo Stdout (LOG_PREFIX @ '' Starting at '' @ date_plain e)
                    (sync_stage e))))"

text \<open>Observations on a run.\<close>

fun invoked :: "cmd \<Rightarrow> (cmd \<times> nat) list \<Rightarrow> bool" where
  "invoked c [] = False"
| "invoked c ((c', st) # tr) = (c = c' \<or> invoked c tr)"

fun is_commit :: "cmd \<times> nat \<Rightarrow> bool" where
  "is_commit (GitCommit m, st) = True"
| "is_commit (c, st) = False"

fun is_push :: "cmd \<times> nat \<Rightarrow> bool" where
  "is_push (GitPush, st) = True"
| "is_push (c, st) = False"

text \<open>The messages of the commits a run has created: \<^verbatim>\<open>git commit\<close> calls that returned 0.\<close>

fun commits_created :: "(cmd \<times> nat) list \<Rightarrow> string list" where
  "commits_created [] = []"
| "commits_created ((GitCommit m, st) # tr) =
     (if st = 0 then m # commits_created tr else commits_created tr)"
| "commits_created ((c, st) # tr) = commits_created tr"

fun starts_with :: "string \<Rightarrow> string \<Rightarrow> bool" where
  "starts_with s [] = True"
| "starts_with [] (p # ps) = False"
| "starts_with (c # s) (p # ps) = (c = p \<and> starts_with s ps)"

fun contains :: "string \<Rightarrow> string \<Rightarrow> bool" where
  "contains [] p = (p = [])"
| "contains (c # s) p = (starts_with (c # s) p \<or> contains s p)"

fun logged :: "stream \<Rightarrow> string \<Rightarrow> (stream \<times> string) list \<Rightarrow> bool" where
  "logged s p [] = False"
| "logged s p ((s', l) # ls) = ((s = s' \<and> contains l p) \<or> logged s p ls)"


text \<open>Runs used as concrete inputs further down.\<close>

definition env_changed :: env where
  "env_changed =
     \<lparr>root_dir = 0, cd_root = 0, date_plain = ''Mon Nov  2 04:35:00 JST 2026'',
      date_plain_status = 0, npm_sync = 0, npm_build = 0, cd_up = 0, git_diff = 1,
      date_status = 0,
      now = \<lparr>year = 2026, month = 11, day = 2, hour = 4, minute = 35, second = 7, millis = 0\<rparr>,
      git_add = 0, git_commit = 0, git_push = 0\<rparr>"

definition env_unchanged :: env where
  "env_unchanged = env_changed\<lparr>git_diff := 0\<rparr>"

definition env_sync_fails :: env where
  "env_sync_fails = env_changed\<lparr>npm_sync := 1\<rparr>"

definition env_build_fails :: env where
  "env_build_fails = env_changed\<lparr>npm_build := 1\<rparr>"

definition env_add_fails :: env where
  "env_add_fails = env_changed\<lparr>git_add := 128\<rparr>"

section \<open>The exporter adapter and the asset relay: \<^verbatim>\<open>scripts/run-bear-export.sh\<close>\<close>

text \<open>
  The script works on the file system. A path is the list of its components from the
  root. An entry is a regular file, with its bytes and its modification time, or a
  directory. A file system is the list of its entries, the latest first: an entry put at
  a path stands before the older entry for that path and is the one a lookup finds.
  Symbolic links and permissions are left out, and so are the failures of a tool that
  come from them or from the disk.
\<close>

type_synonym path = "string list"

datatype node = File string nat | Dir

type_synonym fs = "(path \<times> node) list"

definition entry :: "fs \<Rightarrow> path \<Rightarrow> node option" where
  "entry fs p = map_of fs p"

definition put :: "path \<Rightarrow> node \<Rightarrow> fs \<Rightarrow> fs" where
  "put p n fs = (p, n) # fs"

text \<open>\<^verbatim>\<open>[ -f p ]\<close> and \<^verbatim>\<open>[ -d p ]\<close>.\<close>

definition is_file :: "fs \<Rightarrow> path \<Rightarrow> bool" where
  "is_file fs p = (case entry fs p of Some (File b t) \<Rightarrow> True | Some Dir \<Rightarrow> False | None \<Rightarrow> False)"

definition is_dir :: "fs \<Rightarrow> path \<Rightarrow> bool" where
  "is_dir fs p = (entry fs p = Some Dir)"

text \<open>
  \<^verbatim>\<open>mkdir -p\<close> on one operand walks down the path, creates each missing component as a
  directory and passes over each one that is a directory already; a regular file in the
  way makes it fail, with what it has created so far left in place. With several
  operands it treats each in turn and fails when one of them failed.
\<close>

fun mkdirs :: "path \<Rightarrow> path \<Rightarrow> fs \<Rightarrow> bool \<times> fs" where
  "mkdirs pre [] fs = (True, fs)"
| "mkdirs pre (c # cs) fs =
     (case entry fs (pre @ [c]) of
        None \<Rightarrow> mkdirs (pre @ [c]) cs (put (pre @ [c]) Dir fs)
      | Some Dir \<Rightarrow> mkdirs (pre @ [c]) cs fs
      | Some (File b t) \<Rightarrow> (False, fs))"

fun mkdir_p :: "path list \<Rightarrow> fs \<Rightarrow> bool \<times> fs" where
  "mkdir_p [] fs = (True, fs)"
| "mkdir_p (p # ps) fs =
     (let (ok, fs') = mkdirs [] p fs; (oks, fs'') = mkdir_p ps fs'
      in (ok \<and> oks, fs''))"

text \<open>
  \<^verbatim>\<open>rsync -r src/ dst/\<close>, as the script calls it: recursive, with no \<^verbatim>\<open>--delete\<close>, no
  \<^verbatim>\<open>--times\<close>, no \<^verbatim>\<open>--force\<close>. \<open>entries_below fs d\<close> lists the relative paths of the
  entries below \<open>d\<close>, each once; a directory is occupied when it has an entry below it.
\<close>

fun strip_prefix :: "path \<Rightarrow> path \<Rightarrow> path option" where
  "strip_prefix [] q = Some q"
| "strip_prefix (d # ds) [] = None"
| "strip_prefix (d # ds) (c # cs) = (if d = c then strip_prefix ds cs else None)"

fun below :: "path \<Rightarrow> path list \<Rightarrow> path list" where
  "below d [] = []"
| "below d (q # qs) =
     (case strip_prefix d q of
        None \<Rightarrow> below d qs
      | Some p \<Rightarrow> (if p = [] \<or> p \<in> set (below d qs) then below d qs else p # below d qs))"

definition entries_below :: "fs \<Rightarrow> path \<Rightarrow> path list" where
  "entries_below fs d = below d (map fst fs)"

definition occupied :: "fs \<Rightarrow> path \<Rightarrow> bool" where
  "occupied fs d = (entries_below fs d \<noteq> [])"

text \<open>
  The quick check of rsync: a source file is taken to be transferred already, and is
  skipped, when the destination is a regular file of the same size and the same
  modification time. The bytes are not compared.
\<close>

fun quick_check :: "node \<Rightarrow> node option \<Rightarrow> bool" where
  "quick_check (File b t) (Some (File b' t')) = (length b = length b' \<and> t = t')"
| "quick_check n m = False"

text \<open>
  A source file whose destination is a directory: rsync removes the directory to make
  way when it is empty; when it is occupied rsync refuses, leaves the directory, goes on
  with the other entries and ends with status 23.
\<close>

definition refused :: "fs \<Rightarrow> path \<Rightarrow> path \<Rightarrow> path \<Rightarrow> bool" where
  "refused fs src dst p = (is_file fs (src @ p) \<and> is_dir fs (dst @ p) \<and> occupied fs (dst @ p))"

text \<open>
  Whether the source entry at the relative path \<open>p\<close> is written to the destination: a
  directory unless the destination is a directory already (a regular file there is
  removed for it); a regular file unless the quick check skips it or rsync refuses it.
\<close>

definition received :: "fs \<Rightarrow> path \<Rightarrow> path \<Rightarrow> path \<Rightarrow> bool" where
  "received fs src dst p =
     (case entry fs (src @ p) of
        None \<Rightarrow> False
      | Some Dir \<Rightarrow> \<not> is_dir fs (dst @ p)
      | Some (File b t) \<Rightarrow>
          \<not> quick_check (File b t) (entry fs (dst @ p)) \<and> \<not> refused fs src dst p)"

text \<open>Without \<^verbatim>\<open>--times\<close> a file that is written carries the time of the transfer.\<close>

fun arrives :: "nat \<Rightarrow> node \<Rightarrow> node" where
  "arrives tick (File b t) = File b tick"
| "arrives tick Dir = Dir"

definition rsync_r :: "nat \<Rightarrow> path \<Rightarrow> path \<Rightarrow> fs \<Rightarrow> nat \<times> fs" where
  "rsync_r tick src dst fs =
     (let ps = entries_below fs src in
      (if filter (refused fs src dst) ps = [] then 0 else 23,
       map (\<lambda>p. (dst @ p, arrives tick (the (entry fs (src @ p)))))
         (filter (received fs src dst) ps) @ fs))"

text \<open>
  The environment of a run: the directory that line 4 resolves (the parent of the
  directory of the script); the exporter \<^verbatim>\<open>bear_export_sync.py\<close>, which is not part of
  this repository: any function from the script path, the two directories it is given
  and the file system to an exit status and a file system; and the time at which rsync
  runs.
\<close>

record export_env =
  ROOT_DIR :: path
  python3 :: "path \<Rightarrow> path \<Rightarrow> path \<Rightarrow> fs \<Rightarrow> nat \<times> fs"
  clock :: nat

definition EXPORT_SCRIPT :: "export_env \<Rightarrow> path" where
  "EXPORT_SCRIPT e = butlast (ROOT_DIR e) @ [''Bear-Markdown-Export'', ''bear_export_sync.py'']"

definition OUT_DIR :: "export_env \<Rightarrow> path" where
  "OUT_DIR e = ROOT_DIR e @ [''src'', ''content'', ''notes'']"

definition BACKUP_DIR :: "export_env \<Rightarrow> path" where
  "BACKUP_DIR e = ROOT_DIR e @ [''bear-sync-backup'']"

definition PUBLIC_DIR :: "export_env \<Rightarrow> path" where
  "PUBLIC_DIR e = ROOT_DIR e @ [''public'']"

definition BEAR_IMAGES :: "export_env \<Rightarrow> path" where
  "BEAR_IMAGES e = OUT_DIR e @ [''BearImages'']"

definition PUBLIC_IMAGES :: "export_env \<Rightarrow> path" where
  "PUBLIC_IMAGES e = PUBLIC_DIR e @ [''BearImages'']"

text \<open>A path as \<^verbatim>\<open>pwd\<close> prints it.\<close>

definition show_path :: "path \<Rightarrow> string" where
  "show_path p = (if p = [] then ''/'' else concat (map (\<lambda>c. ''/'' @ c) p))"

definition not_found :: "export_env \<Rightarrow> string" where
  "not_found e = ''bear_export_sync.py not found at '' @ show_path (ROOT_DIR e) @
     ''/../Bear-Markdown-Export/bear_export_sync.py''"

datatype xcmd =
    Mkdir "path list"
  | TestFile path
  | Python3 path path path
  | TestDir path
  | Rsync path path

text \<open>
  What a run of the script leaves behind: its exit status, the file system, the lines
  the script itself wrote to the error stream, and the commands it ran, in order.
\<close>

record export_run =
  x_exit :: nat
  x_fs :: fs
  x_stderr :: "string list"
  x_trace :: "xcmd list"

text \<open>
  Lines 19 to 23: the relay, started with the file system the exporter left. rsync is
  the last command of the script, so its status is the status of the script.
\<close>

definition relay :: "export_env \<Rightarrow> fs \<Rightarrow> xcmd list \<Rightarrow> export_run" where
  "relay e fs2 tr =
     (if is_dir fs2 (BEAR_IMAGES e) then
        (let (ok, fs3) = mkdir_p [PUBLIC_IMAGES e] fs2 in
         if \<not> ok then
           \<lparr>x_exit = 1, x_fs = fs3, x_stderr = [],
            x_trace = tr @ [TestDir (BEAR_IMAGES e), Mkdir [PUBLIC_IMAGES e]]\<rparr>
         else
           (let (st, fs4) = rsync_r (clock e) (BEAR_IMAGES e) (PUBLIC_IMAGES e) fs3 in
            \<lparr>x_exit = st, x_fs = fs4, x_stderr = [],
             x_trace = tr @ [TestDir (BEAR_IMAGES e), Mkdir [PUBLIC_IMAGES e],
                             Rsync (BEAR_IMAGES e) (PUBLIC_IMAGES e)]\<rparr>))
      else
        \<lparr>x_exit = 0, x_fs = fs2, x_stderr = [], x_trace = tr @ [TestDir (BEAR_IMAGES e)]\<rparr>)"

text \<open>
  Lines 10 to 17, then the relay. Under \<^verbatim>\<open>set -e\<close> a failing \<^verbatim>\<open>mkdir\<close> ends the script
  with status 1, and a failing exporter ends it with the status of the exporter.
\<close>

definition run_bear_export :: "export_env \<Rightarrow> fs \<Rightarrow> export_run" where
  "run_bear_export e fs =
     (let dirs = [OUT_DIR e, BACKUP_DIR e, PUBLIC_DIR e];
          (ok, fs1) = mkdir_p dirs fs in
      if \<not> ok then \<lparr>x_exit = 1, x_fs = fs1, x_stderr = [], x_trace = [Mkdir dirs]\<rparr>
      else if \<not> is_file fs1 (EXPORT_SCRIPT e) then
        \<lparr>x_exit = 1, x_fs = fs1, x_stderr = [not_found e],
         x_trace = [Mkdir dirs, TestFile (EXPORT_SCRIPT e)]\<rparr>
      else
        (let (st, fs2) = python3 e (EXPORT_SCRIPT e) (OUT_DIR e) (BACKUP_DIR e) fs1;
             tr = [Mkdir dirs, TestFile (EXPORT_SCRIPT e),
                   Python3 (EXPORT_SCRIPT e) (OUT_DIR e) (BACKUP_DIR e)] in
         if st \<noteq> 0 then \<lparr>x_exit = st, x_fs = fs2, x_stderr = [], x_trace = tr\<rparr>
         else relay e fs2 tr))"

text \<open>The file system after line 10, and the one the exporter leaves (line 17).\<close>

definition after_startup :: "export_env \<Rightarrow> fs \<Rightarrow> fs" where
  "after_startup e fs = snd (mkdir_p [OUT_DIR e, BACKUP_DIR e, PUBLIC_DIR e] fs)"

definition after_export :: "export_env \<Rightarrow> fs \<Rightarrow> fs" where
  "after_export e fs =
     snd (python3 e (EXPORT_SCRIPT e) (OUT_DIR e) (BACKUP_DIR e) (after_startup e fs))"

text \<open>The file system rsync starts from: the one line 21 leaves.\<close>

definition before_rsync :: "export_env \<Rightarrow> fs \<Rightarrow> fs" where
  "before_rsync e fs = snd (mkdir_p [PUBLIC_IMAGES e] (after_export e fs))"

text \<open>
  Concrete inputs: a checkout at \<^verbatim>\<open>/site\<close>; an exporter that finds no note to export,
  one that exports a single image \<^verbatim>\<open>a.png\<close>, one that exports an image in a folder
  \<^verbatim>\<open>note\<close>, and one that stops with status 2; disks on which \<^verbatim>\<open>public/BearImages\<close> is a
  regular file, holds a file \<^verbatim>\<open>a.png\<close> of the size and time of the exported one, holds an
  occupied directory \<^verbatim>\<open>a.png\<close>, or holds a regular file \<^verbatim>\<open>note\<close>.
\<close>

definition exports_nothing :: "path \<Rightarrow> path \<Rightarrow> path \<Rightarrow> fs \<Rightarrow> nat \<times> fs" where
  "exports_nothing script out backup fs = (0, fs)"

definition exports_image :: "path \<Rightarrow> path \<Rightarrow> path \<Rightarrow> fs \<Rightarrow> nat \<times> fs" where
  "exports_image script out backup fs =
     (0, put (out @ [''BearImages'', ''a.png'']) (File ''PNG-a'' 7)
           (put (out @ [''BearImages'']) Dir fs))"

definition exports_folder :: "path \<Rightarrow> path \<Rightarrow> path \<Rightarrow> fs \<Rightarrow> nat \<times> fs" where
  "exports_folder script out backup fs =
     (0, put (out @ [''BearImages'', ''note'', ''b.png'']) (File ''PNG-b'' 7)
           (put (out @ [''BearImages'', ''note'']) Dir (put (out @ [''BearImages'']) Dir fs)))"

definition exporter_crashes :: "path \<Rightarrow> path \<Rightarrow> path \<Rightarrow> fs \<Rightarrow> nat \<times> fs" where
  "exporter_crashes script out backup fs = (2, fs)"

definition site_quiet :: export_env where
  "site_quiet = \<lparr>ROOT_DIR = [''site''], python3 = exports_nothing, clock = 9\<rparr>"

definition site_image :: export_env where
  "site_image = \<lparr>ROOT_DIR = [''site''], python3 = exports_image, clock = 9\<rparr>"

definition site_folder :: export_env where
  "site_folder = \<lparr>ROOT_DIR = [''site''], python3 = exports_folder, clock = 9\<rparr>"

definition site_broken :: export_env where
  "site_broken = \<lparr>ROOT_DIR = [''site''], python3 = exporter_crashes, clock = 9\<rparr>"

definition disk_bare :: fs where
  "disk_bare = [([''site''], Dir)]"

definition disk_exporter :: fs where
  "disk_exporter =
     [([''site''], Dir), ([''Bear-Markdown-Export''], Dir),
      ([''Bear-Markdown-Export'', ''bear_export_sync.py''], File ''import sqlite3'' 1)]"

definition disk_stale :: fs where
  "disk_stale =
     [([''site'', ''public''], Dir), ([''site'', ''public'', ''BearImages''], Dir),
      ([''site'', ''public'', ''BearImages'', ''old.png''], File ''PNG-old'' 3)] @ disk_exporter"

definition disk_blocked :: fs where
  "disk_blocked =
     [([''site'', ''public''], Dir),
      ([''site'', ''public'', ''BearImages''], File ''not a folder'' 3)] @ disk_exporter"

definition disk_same_stamp :: fs where
  "disk_same_stamp =
     [([''site'', ''public''], Dir), ([''site'', ''public'', ''BearImages''], Dir),
      ([''site'', ''public'', ''BearImages'', ''a.png''], File ''PNG-z'' 7)] @ disk_exporter"

definition disk_folder_in_the_way :: fs where
  "disk_folder_in_the_way =
     [([''site'', ''public''], Dir), ([''site'', ''public'', ''BearImages''], Dir),
      ([''site'', ''public'', ''BearImages'', ''a.png''], Dir),
      ([''site'', ''public'', ''BearImages'', ''a.png'', ''x''], File ''kept'' 3)] @ disk_exporter"

definition disk_file_in_the_way :: fs where
  "disk_file_in_the_way =
     [([''site'', ''public''], Dir), ([''site'', ''public'', ''BearImages''], Dir),
      ([''site'', ''public'', ''BearImages'', ''note''], File ''a file named note'' 3)] @
     disk_exporter"

section \<open>The callback capture listener\<close>

text \<open>
  The listener is the Node program that follows the pipeline in
  \<^verbatim>\<open>scripts/auto-sync-deploy.sh\<close> (lines 56 to 98). Node runs every callback to its end
  before it starts another one, so the \<^verbatim>\<open>end\<close> handlers of the requests run one after
  the other, whatever the interleaving of the connections; the listener is modelled as
  the sequence of these handler runs.
\<close>

subsection \<open>Library functions\<close>

text \<open>
  \<^verbatim>\<open>JSON.stringify(value, null, 2)\<close> on the values the listener builds: strings, arrays
  and objects. A string is held as its UTF-8 bytes.
\<close>

datatype json = JString string | JArray "json list" | JObject "(string \<times> json) list"

definition hex :: "nat \<Rightarrow> char" where
  "hex d = ''0123456789abcdef'' ! (d mod 16)"

definition escape :: "char \<Rightarrow> string" where
  "escape c =
     (if c = CHR 0x22 then [CHR 0x5C, CHR 0x22]
      else if c = CHR 0x5C then [CHR 0x5C, CHR 0x5C]
      else if c = CHR 0x08 then [CHR 0x5C, CHR ''b'']
      else if c = CHR 0x0C then [CHR 0x5C, CHR ''f'']
      else if c = CHR 0x0A then [CHR 0x5C, CHR ''n'']
      else if c = CHR 0x0D then [CHR 0x5C, CHR ''r'']
      else if c = CHR 0x09 then [CHR 0x5C, CHR ''t'']
      else if (of_char c :: nat) < 32 then
        [CHR 0x5C, CHR ''u'', CHR ''0'', CHR ''0'', hex (of_char c div 16), hex (of_char c)]
      else [c])"

definition quote :: "string \<Rightarrow> string" where
  "quote s = [CHR 0x22] @ concat (map escape s) @ [CHR 0x22]"

fun join_with :: "string \<Rightarrow> string list \<Rightarrow> string" where
  "join_with sep [] = []"
| "join_with sep [x] = x"
| "join_with sep (x # y # ys) = x @ sep @ join_with sep (y # ys)"

fun stringify :: "string \<Rightarrow> json \<Rightarrow> string" where
  "stringify ind (JString s) = quote s"
| "stringify ind (JArray xs) =
     (if xs = [] then ''[]''
      else ''['' @ [CHR 0x0A] @ (ind @ ''  '') @
           join_with ('','' @ [CHR 0x0A] @ (ind @ ''  '')) (map (stringify (ind @ ''  '')) xs) @
           [CHR 0x0A] @ ind @ '']'')"
| "stringify ind (JObject kvs) =
     (if kvs = [] then ''{}''
      else ''{'' @ [CHR 0x0A] @ (ind @ ''  '') @
           join_with ('','' @ [CHR 0x0A] @ (ind @ ''  ''))
             (map (\<lambda>kv. quote (fst kv) @ '': '' @ stringify (ind @ ''  '') (snd kv)) kvs) @
           [CHR 0x0A] @ ind @ ''}'')"

definition JSON_stringify :: "json \<Rightarrow> string" where
  "JSON_stringify v = stringify [] v"

text \<open>
  \<^verbatim>\<open>Date.prototype.toISOString\<close>: \<^verbatim>\<open>YYYY-MM-DDTHH:mm:ss.sssZ\<close>, with a sign and six
  digits for a year after 9999. \<open>utc_clock\<close> holds of the readings a clock can give.
\<close>

definition toISOString :: "datetime \<Rightarrow> string" where
  "toISOString t =
     (if year t \<le> 9999 then pad 4 (year t) else ''+'' @ pad 6 (year t)) @ ''-'' @
     pad 2 (month t) @ ''-'' @ pad 2 (day t) @ ''T'' @ pad 2 (hour t) @ '':'' @
     pad 2 (minute t) @ '':'' @ pad 2 (second t) @ ''.'' @ pad 3 (millis t) @ ''Z''"

definition utc_clock :: "datetime \<Rightarrow> bool" where
  "utc_clock t =
     (year t \<le> 275760 \<and> 1 \<le> month t \<and> month t \<le> 12 \<and> 1 \<le> day t \<and> day t \<le> 31 \<and>
      hour t \<le> 23 \<and> minute t \<le> 59 \<and> second t \<le> 59 \<and> millis t \<le> 999)"

text \<open>\<^verbatim>\<open>.replace(/[:.]/g, '-')\<close> and \<^verbatim>\<open>path.join\<close> of a directory and a file name.\<close>

definition replace_colon_dot :: "string \<Rightarrow> string" where
  "replace_colon_dot s = map (\<lambda>c. if c = CHR '':'' \<or> c = CHR ''.'' then CHR ''-'' else c) s"

text \<open>The time stamp of a file name, written out: the ISO string after the replacement.\<close>

definition stamp :: "datetime \<Rightarrow> string" where
  "stamp t =
     (if year t \<le> 9999 then pad 4 (year t) else ''+'' @ pad 6 (year t)) @ ''-'' @
     pad 2 (month t) @ ''-'' @ pad 2 (day t) @ ''T'' @ pad 2 (hour t) @ ''-'' @
     pad 2 (minute t) @ ''-'' @ pad 2 (second t) @ ''-'' @ pad 3 (millis t) @ ''Z''"

definition path_join :: "string \<Rightarrow> string \<Rightarrow> string" where
  "path_join d n = d @ ''/'' @ n"

subsection \<open>The request handler\<close>

text \<open>
  The process: the directory \<^verbatim>\<open>bear-callback-debug\<close> it writes to, and the decoder behind
  \<^verbatim>\<open>Buffer.toString('utf8')\<close>, which is left open.
\<close>

record node_env =
  debugDir :: string
  toString_utf8 :: "string \<Rightarrow> string"

text \<open>
  One request as its \<^verbatim>\<open>end\<close> handler meets it: method, url and headers of \<^verbatim>\<open>req\<close>, the
  chunks of the \<^verbatim>\<open>data\<close> events in the order they came, the clock reading
  \<^verbatim>\<open>new Date()\<close> takes in the handler, and whether \<^verbatim>\<open>writeFileSync\<close> throws.
\<close>

record arrival =
  req_method :: string
  req_url :: string
  req_headers :: "(string \<times> json) list"
  data_events :: "string list"
  end_time :: datetime
  write_fails :: bool

text \<open>
  What the process does, in order. The number is the place of the request in the
  sequence of arrivals: it stands for the \<^verbatim>\<open>res\<close> object of that request.
\<close>

datatype action =
    Wrote nat string string
  | Logged string
  | Head nat nat "(string \<times> string) list"
  | Body nat string
  | Threw nat

record listener =
  files :: "string \<Rightarrow> string option"
  actions :: "action list"
  running :: bool

text \<open>Line 73: \<^verbatim>\<open>chunks.push(c)\<close>. Lines 75 to 85: body, file name and payload.\<close>

definition push :: "string list \<Rightarrow> string \<Rightarrow> string list" where
  "push chunks c = chunks @ [c]"

definition body_of :: "node_env \<Rightarrow> arrival \<Rightarrow> string" where
  "body_of n a = toString_utf8 n (concat (foldl push [] (data_events a)))"

definition ts_of :: "arrival \<Rightarrow> string" where
  "ts_of a = replace_colon_dot (toISOString (end_time a))"

definition file_of :: "node_env \<Rightarrow> arrival \<Rightarrow> string" where
  "file_of n a = path_join (debugDir n) (ts_of a @ ''-'' @ req_method a @ ''.log'')"

definition payload_of :: "node_env \<Rightarrow> arrival \<Rightarrow> string" where
  "payload_of n a =
     JSON_stringify
       (JObject [(''method'', JString (req_method a)), (''url'', JString (req_url a)),
                 (''headers'', JObject (req_headers a)), (''body'', JString (body_of n a))])"

definition saved_line :: "string \<Rightarrow> string" where
  "saved_line file = ''Saved callback payload '' @ [CHR 0xE2, CHR 0x86, CHR 0x92] @ '' '' @ file"

text \<open>Lines 87 to 91, when \<^verbatim>\<open>writeFileSync\<close> returns.\<close>

definition completed :: "node_env \<Rightarrow> nat \<Rightarrow> arrival \<Rightarrow> action list" where
  "completed n rid a =
     [Wrote rid (file_of n a) (payload_of n a), Logged (saved_line (file_of n a)),
      Head rid 200 [(''Content-Type'', ''text/plain'')], Body rid ''ok'']"

text \<open>
  The \<^verbatim>\<open>end\<close> handler (lines 74 to 92). No handler of the program catches an exception:
  when \<^verbatim>\<open>writeFileSync\<close> throws, the exception leaves the callback and Node ends the
  process, and a process that has ended handles nothing.
\<close>

definition on_end :: "node_env \<Rightarrow> nat \<times> arrival \<Rightarrow> listener \<Rightarrow> listener" where
  "on_end n ra s =
     (if \<not> running s then s
      else if write_fails (snd ra) then
        s\<lparr>actions := actions s @ [Threw (fst ra)], running := False\<rparr>
      else
        s\<lparr>files := (files s)(file_of n (snd ra) \<mapsto> payload_of n (snd ra)),
          actions := actions s @ completed n (fst ra) (snd ra)\<rparr>)"

fun serve :: "node_env \<Rightarrow> (nat \<times> arrival) list \<Rightarrow> listener \<Rightarrow> listener" where
  "serve n [] s = s"
| "serve n (ra # ras) s = serve n ras (on_end n ra s)"

definition listening :: "(string \<Rightarrow> string option) \<Rightarrow> listener" where
  "listening fs = \<lparr>files = fs, actions = [], running = True\<rparr>"

definition numbered :: "arrival list \<Rightarrow> (nat \<times> arrival) list" where
  "numbered as = zip [0..<length as] as"

text \<open>
  Observations on what the process did: the names of the files written, in order;
  whether a request was answered with status 200; and whether every answer to a request
  comes after the write of the record of that request.
\<close>

fun written :: "action list \<Rightarrow> string list" where
  "written [] = []"
| "written (Wrote rid f p # l) = f # written l"
| "written (x # l) = written l"

fun answered :: "nat \<Rightarrow> action list \<Rightarrow> bool" where
  "answered rid [] = False"
| "answered rid (Head r st h # l) = ((r = rid \<and> st = 200) \<or> answered rid l)"
| "answered rid (x # l) = answered rid l"

fun persisted_first :: "nat list \<Rightarrow> action list \<Rightarrow> bool" where
  "persisted_first seen [] = True"
| "persisted_first seen (Wrote rid f p # l) = persisted_first (rid # seen) l"
| "persisted_first seen (Head rid st h # l) = (rid \<in> set seen \<and> persisted_first seen l)"
| "persisted_first seen (Body rid b # l) = (rid \<in> set seen \<and> persisted_first seen l)"
| "persisted_first seen (x # l) = persisted_first seen l"

text \<open>Concrete inputs: requests that end at noon, seven or eight milliseconds past.\<close>

definition node_site :: node_env where
  "node_site = \<lparr>debugDir = ''/site/bear-callback-debug'', toString_utf8 = (\<lambda>b. b)\<rparr>"

definition noon :: datetime where
  "noon = \<lparr>year = 2026, month = 11, day = 2, hour = 12, minute = 0, second = 0, millis = 7\<rparr>"

definition get_a :: arrival where
  "get_a =
     \<lparr>req_method = ''GET'', req_url = ''/a'',
      req_headers = [(''host'', JString ''127.0.0.1:58503'')],
      data_events = [], end_time = noon, write_fails = False\<rparr>"

definition get_b :: arrival where
  "get_b = get_a\<lparr>req_url := ''/b''\<rparr>"

definition get_later :: arrival where
  "get_later = get_b\<lparr>end_time := noon\<lparr>millis := 8\<rparr>\<rparr>"

definition post_c :: arrival where
  "post_c = get_a\<lparr>req_method := ''POST'', req_url := ''/c'', data_events := [''x-success='', ''1'']\<rparr>"

definition get_disk_full :: arrival where
  "get_disk_full = get_a\<lparr>write_fails := True\<rparr>"

section \<open>Auxiliary facts\<close>

subsection \<open>Digits and fixed-width fields\<close>

lemma pad2: "pad 2 k = [digit (k div 10), digit k]"
  by (simp add: numeral_2_eq_2)

lemma pad3: "pad 3 k = [digit (k div 10 div 10), digit (k div 10), digit k]"
proof -
  have "(3::nat) = Suc (Suc (Suc 0))" by simp
  then show ?thesis by (simp only: pad.simps append.simps)
qed

lemma pad4: "pad 4 k = [digit (k div 10 div 10 div 10), digit (k div 10 div 10), digit (k div 10), digit k]"
proof -
  have "(4::nat) = Suc (Suc (Suc (Suc 0)))" by simp
  then show ?thesis by (simp only: pad.simps append.simps)
qed

lemma dec_four_digits:
  assumes "1000 \<le> y" and "y \<le> 9999"
  shows "dec y = pad 4 y"
proof -
  have n: "\<not> y < 10" "\<not> y div 10 < 10" "\<not> y div 10 div 10 < 10" "y div 10 div 10 div 10 < 10"
    using assms by linarith+
  have a: "dec y = dec (y div 10) @ [digit y]"
    using n by (subst dec.simps) simp
  have b: "dec (y div 10) = dec (y div 10 div 10) @ [digit (y div 10)]"
    using n by (subst dec.simps) simp
  have c: "dec (y div 10 div 10) = dec (y div 10 div 10 div 10) @ [digit (y div 10 div 10)]"
    using n by (subst dec.simps) simp
  have d: "dec (y div 10 div 10 div 10) = [digit (y div 10 div 10 div 10)]"
    using n by (subst dec.simps) simp
  show ?thesis unfolding a b c d pad4 by simp
qed

lemma is_digit_digit: "is_digit (digit k)"
  unfolding is_digit_def digit_def by (rule nth_mem) simp

lemma strftime_commit_format:
  "strftime commit_format t =
     dec (year t) @ ''-'' @ pad 2 (month t) @ ''-'' @ pad 2 (day t) @ '' '' @
     pad 2 (hour t) @ '':'' @ pad 2 (minute t) @ '':'' @ pad 2 (second t)"
  by (simp add: commit_format_def conversion_def)

lemma stamp_matches:
  assumes "wall_clock t"
  shows "matches_template ''YYYY-MM-DD HH:MM:SS'' (strftime commit_format t)"
  using assms
  by (simp add: strftime_commit_format dec_four_digits wall_clock_def pad2 pad4 is_digit_digit is_letter_def)

lemma commits_created_append:
  "commits_created (xs @ ys) = commits_created xs @ commits_created ys"
  by (induction xs rule: commits_created.induct) auto


lemmas stage_defs = auto_sync_deploy_def sync_stage_def build_stage_def diff_stage_def
  commit_stage_def push_stage_def ran_def echo_def exit_with_def

subsection \<open>Creating directories and copying trees\<close>

lemma entry_put [simp]: "entry (put p n fs) q = (if q = p then Some n else entry fs q)"
  by (simp add: entry_def put_def)

lemma strip_prefix_append: "strip_prefix d (d @ p) = Some p"
  by (induction d) simp_all

lemma strip_prefix_Some: "strip_prefix d q = Some p \<Longrightarrow> q = d @ p"
  by (induction d q rule: strip_prefix.induct) (auto split: if_splits)

lemma strip_prefix_iff: "strip_prefix d q = Some p \<longleftrightarrow> q = d @ p"
  using strip_prefix_append strip_prefix_Some by blast

lemma set_below: "set (below d qs) = {p. p \<noteq> [] \<and> d @ p \<in> set qs}"
proof (induction qs)
  case Nil
  then show ?case by simp
next
  case (Cons q qs)
  show ?case
  proof (cases "strip_prefix d q")
    case None
    then have "\<And>p. q \<noteq> d @ p" using strip_prefix_append by fastforce
    then show ?thesis using Cons None by auto
  next
    case (Some p)
    then have q: "q = d @ p" by (rule strip_prefix_Some)
    show ?thesis using Cons Some unfolding q by auto
  qed
qed

lemma distinct_below: "distinct (below d qs)"
  by (induction qs) (simp_all split: option.splits)

lemma entries_below_iff: "p \<in> set (entries_below fs d) \<longleftrightarrow> p \<noteq> [] \<and> entry fs (d @ p) \<noteq> None"
  unfolding entries_below_def set_below entry_def
  by (simp add: map_of_eq_None_iff)

lemma occupied_iff: "occupied fs d \<longleftrightarrow> (\<exists>p. p \<noteq> [] \<and> entry fs (d @ p) \<noteq> None)"
proof -
  have "occupied fs d \<longleftrightarrow> (\<exists>p. p \<in> set (entries_below fs d))"
    unfolding occupied_def by (cases "entries_below fs d") auto
  then show ?thesis by (simp add: entries_below_iff)
qed

lemma map_of_placed:
  "map_of (map (\<lambda>p. (dst @ p, v p)) ps @ fs) q =
     (case strip_prefix dst q of
        None \<Rightarrow> map_of fs q
      | Some p \<Rightarrow> if p \<in> set ps then Some (v p) else map_of fs q)"
proof (induction ps)
  case Nil
  then show ?case by (simp split: option.splits)
next
  case (Cons a ps)
  show ?case
  proof (cases "strip_prefix dst q")
    case None
    then have "q \<noteq> dst @ a" using strip_prefix_append by fastforce
    then show ?thesis using Cons None by simp
  next
    case (Some p)
    then have q: "q = dst @ p" by (rule strip_prefix_Some)
    show ?thesis using Cons Some unfolding q by auto
  qed
qed

lemma entry_rsync_r:
  "entry (snd (rsync_r tick src dst fs)) q =
     (case strip_prefix dst q of
        None \<Rightarrow> entry fs q
      | Some p \<Rightarrow>
          if p \<noteq> [] \<and> received fs src dst p
          then Some (arrives tick (the (entry fs (src @ p)))) else entry fs q)"
proof -
  have "p \<in> set (filter (received fs src dst) (entries_below fs src)) \<longleftrightarrow>
        p \<noteq> [] \<and> received fs src dst p" for p
    by (auto simp: entries_below_iff received_def split: option.splits)
  then show ?thesis
    unfolding rsync_r_def Let_def entry_def snd_conv map_of_placed
    by (simp split: option.splits)
qed

lemma refused_present: "refused fs src dst p \<Longrightarrow> entry fs (src @ p) \<noteq> None"
  by (auto simp: refused_def is_file_def split: option.splits)

lemma status_rsync_r:
  "fst (rsync_r tick src dst fs) =
     (if \<exists>p. p \<noteq> [] \<and> refused fs src dst p then 23 else 0)"
proof -
  have "filter (refused fs src dst) (entries_below fs src) = [] \<longleftrightarrow>
        (\<forall>p \<in> set (entries_below fs src). \<not> refused fs src dst p)"
    by (simp add: filter_empty_conv)
  also have "\<dots> \<longleftrightarrow> \<not> (\<exists>p. p \<noteq> [] \<and> refused fs src dst p)"
  proof
    assume L: "\<forall>p \<in> set (entries_below fs src). \<not> refused fs src dst p"
    show "\<not> (\<exists>p. p \<noteq> [] \<and> refused fs src dst p)"
    proof
      assume "\<exists>p. p \<noteq> [] \<and> refused fs src dst p"
      then obtain p where p: "p \<noteq> []" "refused fs src dst p" by blast
      then have "p \<in> set (entries_below fs src)"
        using refused_present[OF p(2)] by (simp add: entries_below_iff)
      with L p(2) show False by blast
    qed
  next
    assume R: "\<not> (\<exists>p. p \<noteq> [] \<and> refused fs src dst p)"
    show "\<forall>p \<in> set (entries_below fs src). \<not> refused fs src dst p"
    proof
      fix p assume "p \<in> set (entries_below fs src)"
      then have "p \<noteq> []" by (simp add: entries_below_iff)
      with R show "\<not> refused fs src dst p" by blast
    qed
  qed
  finally show ?thesis unfolding rsync_r_def Let_def by simp
qed


lemma mkdirs_only_adds:
  "entry (snd (mkdirs pre p fs)) q = entry fs q \<or>
   (entry fs q = None \<and> entry (snd (mkdirs pre p fs)) q = Some Dir)"
proof (induction pre p fs rule: mkdirs.induct)
  case (1 pre fs)
  then show ?case by simp
next
  case (2 pre c cs fs)
  show ?case
  proof (cases "entry fs (pre @ [c])")
    case None
    have "entry (snd (mkdirs (pre @ [c]) cs (put (pre @ [c]) Dir fs))) q =
            entry (put (pre @ [c]) Dir fs) q \<or>
          (entry (put (pre @ [c]) Dir fs) q = None \<and>
           entry (snd (mkdirs (pre @ [c]) cs (put (pre @ [c]) Dir fs))) q = Some Dir)"
      by (rule 2(1)[OF None])
    then show ?thesis
      using None by (cases "q = pre @ [c]") simp_all
  next
    case (Some n)
    show ?thesis
    proof (cases n)
      case (File b t)
      then show ?thesis using Some by simp
    next
      case Dir
      then show ?thesis using Some 2(2)[OF Some Dir] by simp
    qed
  qed
qed

lemma mkdirs_creates:
  "fst (mkdirs pre p fs) \<Longrightarrow> p \<noteq> [] \<Longrightarrow> entry (snd (mkdirs pre p fs)) (pre @ p) = Some Dir"
proof (induction pre p fs rule: mkdirs.induct)
  case (1 pre fs)
  then show ?case by simp
next
  case (2 pre c cs fs)
  have app: "(pre @ [c]) @ cs = pre @ c # cs" by simp
  show ?case
  proof (cases "entry fs (pre @ [c])")
    case None
    have eq: "mkdirs pre (c # cs) fs = mkdirs (pre @ [c]) cs (put (pre @ [c]) Dir fs)"
      using None by simp
    show ?thesis
    proof (cases "cs = []")
      case True
      then show ?thesis unfolding eq by simp
    next
      case False
      have "fst (mkdirs (pre @ [c]) cs (put (pre @ [c]) Dir fs))"
        using 2(3) unfolding eq .
      from 2(1)[OF None this False] show ?thesis unfolding eq app .
    qed
  next
    case (Some n)
    show ?thesis
    proof (cases n)
      case (File b t)
      then show ?thesis using Some 2(3) by simp
    next
      case Dir
      have eq: "mkdirs pre (c # cs) fs = mkdirs (pre @ [c]) cs fs"
        using Some Dir by simp
      show ?thesis
      proof (cases "cs = []")
        case True
        then show ?thesis unfolding eq using Some Dir by simp
      next
        case False
        have "fst (mkdirs (pre @ [c]) cs fs)"
          using 2(3) unfolding eq .
        from 2(2)[OF Some Dir this False] show ?thesis unfolding eq app .
      qed
    qed
  qed
qed

lemma mkdirs_touches_short:
  "entry (snd (mkdirs pre p fs)) q \<noteq> entry fs q \<Longrightarrow> length q \<le> length pre + length p"
proof (induction pre p fs rule: mkdirs.induct)
  case (1 pre fs)
  then show ?case by simp
next
  case (2 pre c cs fs)
  show ?case
  proof (cases "entry fs (pre @ [c])")
    case None
    have eq: "mkdirs pre (c # cs) fs = mkdirs (pre @ [c]) cs (put (pre @ [c]) Dir fs)"
      using None by simp
    show ?thesis
    proof (cases "q = pre @ [c]")
      case True
      then show ?thesis by simp
    next
      case False
      then have "entry (snd (mkdirs (pre @ [c]) cs (put (pre @ [c]) Dir fs))) q \<noteq>
                 entry (put (pre @ [c]) Dir fs) q"
        using 2(3) unfolding eq by simp
      from 2(1)[OF None this] show ?thesis by simp
    qed
  next
    case (Some n)
    show ?thesis
    proof (cases n)
      case (File b t)
      then show ?thesis using Some 2(3) by simp
    next
      case Dir
      have eq: "mkdirs pre (c # cs) fs = mkdirs (pre @ [c]) cs fs"
        using Some Dir by simp
      have "entry (snd (mkdirs (pre @ [c]) cs fs)) q \<noteq> entry fs q"
        using 2(3) unfolding eq .
      from 2(2)[OF Some Dir this] show ?thesis by simp
    qed
  qed
qed

lemma mkdir_p_only_adds:
  "entry (snd (mkdir_p ps fs)) q = entry fs q \<or>
   (entry fs q = None \<and> entry (snd (mkdir_p ps fs)) q = Some Dir)"
proof (induction ps arbitrary: fs)
  case Nil
  then show ?case by simp
next
  case (Cons p ps)
  have a: "snd (mkdir_p (p # ps) fs) = snd (mkdir_p ps (snd (mkdirs [] p fs)))"
    by (simp add: case_prod_unfold Let_def)
  show ?case
    using Cons[of "snd (mkdirs [] p fs)"] mkdirs_only_adds[of "[]" p fs q]
    unfolding a by auto
qed

lemma mkdir_p_keeps: "entry fs q = Some n \<Longrightarrow> entry (snd (mkdir_p ps fs)) q = Some n"
  using mkdir_p_only_adds[of ps fs q] by auto

lemma mkdir_p_Cons:
  "mkdir_p (p # ps) fs =
     (fst (mkdirs [] p fs) \<and> fst (mkdir_p ps (snd (mkdirs [] p fs))),
      snd (mkdir_p ps (snd (mkdirs [] p fs))))"
  by (simp add: case_prod_unfold Let_def)

lemma mkdir_p_creates:
  "fst (mkdir_p ps fs) \<Longrightarrow> p \<in> set ps \<Longrightarrow> p \<noteq> [] \<Longrightarrow>
   entry (snd (mkdir_p ps fs)) p = Some Dir"
proof (induction ps arbitrary: fs)
  case Nil
  then show ?case by simp
next
  case (Cons a ps)
  have ok: "fst (mkdirs [] a fs)" "fst (mkdir_p ps (snd (mkdirs [] a fs)))"
    using Cons.prems(1) unfolding mkdir_p_Cons by simp_all
  show ?case
  proof (cases "p = a")
    case True
    have "entry (snd (mkdirs [] a fs)) ([] @ a) = Some Dir"
      using ok(1) Cons.prems(3) True by (intro mkdirs_creates) simp_all
    then have "entry (snd (mkdir_p ps (snd (mkdirs [] a fs)))) a = Some Dir"
      by (intro mkdir_p_keeps) simp
    then show ?thesis unfolding mkdir_p_Cons using True by simp
  next
    case False
    then have "p \<in> set ps" using Cons.prems(2) by simp
    from Cons.IH[OF ok(2) this Cons.prems(3)] show ?thesis
      unfolding mkdir_p_Cons by simp
  qed
qed

lemmas export_defs = run_bear_export_def relay_def after_export_def after_startup_def

lemma startup_dirs:
  assumes "fst (mkdir_p [OUT_DIR e, BACKUP_DIR e, PUBLIC_DIR e] fs)"
  shows "is_dir (after_startup e fs) (OUT_DIR e)"
    and "is_dir (after_startup e fs) (BACKUP_DIR e)"
    and "is_dir (after_startup e fs) (PUBLIC_DIR e)"
  unfolding is_dir_def after_startup_def
  by (rule mkdir_p_creates[OF assms]; simp add: OUT_DIR_def BACKUP_DIR_def PUBLIC_DIR_def)+

lemma mkdir_p_one: "mkdir_p [p] fs = mkdirs [] p fs"
  by (simp add: case_prod_unfold)

lemma mkdir_one_touches_short:
  "entry (snd (mkdir_p [d] fs)) q \<noteq> entry fs q \<Longrightarrow> length q \<le> length d"
  unfolding mkdir_p_one using mkdirs_touches_short[of "[]" d fs q] by simp

lemmas site_defs = OUT_DIR_def BACKUP_DIR_def PUBLIC_DIR_def BEAR_IMAGES_def PUBLIC_IMAGES_def
  EXPORT_SCRIPT_def

lemmas tool_defs = rsync_r_def entries_below_def refused_def received_def occupied_def
  is_file_def is_dir_def entry_def put_def

subsection \<open>Time stamps and the sequence of handler runs\<close>

lemma length_pad: "length (pad n k) = n"
  by (induction n arbitrary: k) simp_all

lemma digit_eq_iff: "digit a = digit b \<longleftrightarrow> a mod 10 = b mod 10"
proof -
  have d: "distinct ''0123456789''" by simp
  have "a mod 10 < length ''0123456789''" "b mod 10 < length ''0123456789''" by simp_all
  then show ?thesis unfolding digit_def by (rule nth_eq_iff_index_eq[OF d])
qed

lemma pad_inj:
  "pad n a = pad n b \<Longrightarrow> a < 10 ^ n \<Longrightarrow> b < 10 ^ n \<Longrightarrow> a = b"
proof (induction n arbitrary: a b)
  case 0
  then show ?case by simp
next
  case (Suc n)
  from Suc.prems(1) have e: "pad n (a div 10) = pad n (b div 10)" and d: "digit a = digit b"
    by (simp_all add: length_pad)
  have "a div 10 < 10 ^ n" "b div 10 < 10 ^ n"
    using Suc.prems(2,3) by (simp_all add: less_mult_imp_div_less mult.commute)
  with Suc.IH[OF e] have q: "a div 10 = b div 10" by simp
  from d have r: "a mod 10 = b mod 10" by (simp add: digit_eq_iff)
  have "a = 10 * (a div 10) + a mod 10" by simp
  also have "\<dots> = 10 * (b div 10) + b mod 10" using q r by simp
  also have "\<dots> = b" by simp
  finally show ?case .
qed

lemma digit_plain: "digit k \<noteq> CHR '':''" "digit k \<noteq> CHR ''.''" "digit k \<noteq> CHR ''+''"
  using is_digit_digit[of k] by (auto simp: is_digit_def)

lemma replace_pad: "replace_colon_dot (pad n k) = pad n k"
  by (induction n arbitrary: k) (simp_all add: replace_colon_dot_def digit_plain)

lemma replace_append: "replace_colon_dot (xs @ ys) = replace_colon_dot xs @ replace_colon_dot ys"
  by (simp add: replace_colon_dot_def)

lemma replace_toISOString: "replace_colon_dot (toISOString t) = stamp t"
  by (simp add: toISOString_def stamp_def replace_colon_dot_def
        replace_pad[unfolded replace_colon_dot_def])


lemma stamp_inj:
  assumes "utc_clock t" and "utc_clock t'"
    and "stamp t @ ''-'' @ m @ ''.log'' = stamp t' @ ''-'' @ m' @ ''.log''"
  shows "t = t' \<and> m = m'"
proof -
  have r: "year t < 10 ^ 6" "year t' < 10 ^ 6" "month t < 10 ^ 2" "month t' < 10 ^ 2"
    "day t < 10 ^ 2" "day t' < 10 ^ 2" "hour t < 10 ^ 2" "hour t' < 10 ^ 2"
    "minute t < 10 ^ 2" "minute t' < 10 ^ 2" "second t < 10 ^ 2" "second t' < 10 ^ 2"
    "millis t < 10 ^ 3" "millis t' < 10 ^ 3"
    using assms(1,2) by (simp_all add: utc_clock_def)
  have y4: "year t \<le> 9999 \<Longrightarrow> year t < 10 ^ 4" "year t' \<le> 9999 \<Longrightarrow> year t' < 10 ^ 4"
    by simp_all
  have mixed: "pad 4 a @ xs \<noteq> ''+'' @ ys" for a xs ys
    by (simp add: pad4 digit_plain)
  have fields: "year t = year t' \<and> pad 2 (month t) = pad 2 (month t') \<and>
      pad 2 (day t) = pad 2 (day t') \<and> pad 2 (hour t) = pad 2 (hour t') \<and>
      pad 2 (minute t) = pad 2 (minute t') \<and> pad 2 (second t) = pad 2 (second t') \<and>
      pad 3 (millis t) = pad 3 (millis t') \<and> m = m'"
  proof (cases "year t \<le> 9999"; cases "year t' \<le> 9999")
    assume a: "year t \<le> 9999" "year t' \<le> 9999"
    with assms(3) have "pad 4 (year t) = pad 4 (year t')" and rest: "pad 2 (month t) = pad 2 (month t') \<and>
      pad 2 (day t) = pad 2 (day t') \<and> pad 2 (hour t) = pad 2 (hour t') \<and>
      pad 2 (minute t) = pad 2 (minute t') \<and> pad 2 (second t) = pad 2 (second t') \<and>
      pad 3 (millis t) = pad 3 (millis t') \<and> m = m'"
      by (simp_all add: stamp_def length_pad)
    then show ?thesis using pad_inj[OF _ y4(1)[OF a(1)] y4(2)[OF a(2)]] by simp
  next
    assume a: "\<not> year t \<le> 9999" "\<not> year t' \<le> 9999"
    with assms(3) have "pad 6 (year t) = pad 6 (year t')" and rest: "pad 2 (month t) = pad 2 (month t') \<and>
      pad 2 (day t) = pad 2 (day t') \<and> pad 2 (hour t) = pad 2 (hour t') \<and>
      pad 2 (minute t) = pad 2 (minute t') \<and> pad 2 (second t) = pad 2 (second t') \<and>
      pad 3 (millis t) = pad 3 (millis t') \<and> m = m'"
      by (simp_all add: stamp_def length_pad)
    then show ?thesis using pad_inj[OF _ r(1) r(2)] by simp
  next
    assume a: "year t \<le> 9999" "\<not> year t' \<le> 9999"
    then show ?thesis using assms(3) mixed[of "year t"] by (simp add: stamp_def)
  next
    assume a: "\<not> year t \<le> 9999" "year t' \<le> 9999"
    then show ?thesis using assms(3) mixed[of "year t'", symmetric] by (simp add: stamp_def)
  qed
  then have "year t = year t'" "month t = month t'" "day t = day t'" "hour t = hour t'"
    "minute t = minute t'" "second t = second t'" "millis t = millis t'" "m = m'"
    using r by (auto dest: pad_inj)
  then show ?thesis by simp
qed


lemma file_of_inj:
  assumes "utc_clock (end_time a)" and "utc_clock (end_time b)" and "file_of n a = file_of n b"
  shows "end_time a = end_time b \<and> req_method a = req_method b"
  using assms stamp_inj[of "end_time a" "end_time b" "req_method a" "req_method b"]
  by (simp add: file_of_def path_join_def ts_of_def replace_toISOString)

lemma foldl_push: "foldl push acc cs = acc @ cs"
  by (induction cs arbitrary: acc) (simp_all add: push_def)

lemma serve_stopped: "\<not> running s \<Longrightarrow> serve n ras s = s"
  by (induction ras arbitrary: s) (simp_all add: on_end_def)

lemma serve_files_other:
  "f \<notin> set (map (\<lambda>ra. file_of n (snd ra)) ras) \<Longrightarrow> files (serve n ras s) f = files s f"
  by (induction ras arbitrary: s) (auto simp: on_end_def)

lemma serve_all_written:
  assumes "running s" and "\<forall>ra \<in> set ras. \<not> write_fails (snd ra)"
  shows "running (serve n ras s) \<and>
         actions (serve n ras s) = actions s @ concat (map (\<lambda>ra. completed n (fst ra) (snd ra)) ras)"
  using assms by (induction ras arbitrary: s) (simp_all add: on_end_def)

lemma serve_keeps_record:
  assumes "running s" and "\<forall>ra \<in> set ras. \<not> write_fails (snd ra)"
    and "distinct (map (\<lambda>ra. file_of n (snd ra)) ras)" and "ra \<in> set ras"
  shows "files (serve n ras s) (file_of n (snd ra)) = Some (payload_of n (snd ra))"
  using assms
proof (induction ras arbitrary: s)
  case Nil
  then show ?case by simp
next
  case (Cons x ras)
  have run: "running (on_end n x s)" using Cons.prems(1,2) by (simp add: on_end_def)
  show ?case
  proof (cases "ra \<in> set ras")
    case True
    then show ?thesis using Cons.IH[OF run] Cons.prems by simp
  next
    case False
    then have eq: "ra = x" using Cons.prems(4) by simp
    have "file_of n (snd x) \<notin> set (map (\<lambda>ra. file_of n (snd ra)) ras)"
      using Cons.prems(3) by simp
    then have "files (serve n ras (on_end n x s)) (file_of n (snd x)) =
               files (on_end n x s) (file_of n (snd x))"
      by (rule serve_files_other)
    then show ?thesis using eq Cons.prems(1,2) by (simp add: on_end_def)
  qed
qed

lemma written_append: "written (xs @ ys) = written xs @ written ys"
  by (induction xs rule: written.induct) simp_all

lemma written_completed:
  "written (concat (map (\<lambda>ra. completed n (fst ra) (snd ra)) ras)) = map (\<lambda>ra. file_of n (snd ra)) ras"
  by (induction ras) (simp_all add: completed_def)

lemma answered_append: "answered r (xs @ ys) = (answered r xs \<or> answered r ys)"
  by (induction r xs rule: answered.induct) auto

lemma answered_completed:
  "ra \<in> set ras \<Longrightarrow> answered (fst ra) (concat (map (\<lambda>ra. completed n (fst ra) (snd ra)) ras))"
  by (induction ras) (auto simp: completed_def answered_append)

lemma persisted_first_mono:
  "persisted_first seen l \<Longrightarrow> set seen \<subseteq> set seen' \<Longrightarrow> persisted_first seen' l"
proof (induction seen l arbitrary: seen' rule: persisted_first.induct)
  case (2 seen rid f p l)
  from 2(2) have a: "persisted_first (rid # seen) l" by simp
  from 2(3) have b: "set (rid # seen) \<subseteq> set (rid # seen')" by auto
  from "2.IH"[OF a b] show ?case by simp
qed auto

lemma persisted_first_append:
  "persisted_first seen xs \<Longrightarrow> persisted_first seen ys \<Longrightarrow> persisted_first seen (xs @ ys)"
proof (induction seen xs rule: persisted_first.induct)
  case (2 seen rid f p l)
  have "persisted_first (rid # seen) ys"
    using 2(3) by (rule persisted_first_mono) auto
  then show ?case using 2 by simp
qed simp_all

lemma on_end_persisted_first:
  "persisted_first [] (actions s) \<Longrightarrow> persisted_first [] (actions (on_end n ra s))"
  by (auto simp: on_end_def completed_def intro!: persisted_first_append)

lemma serve_persisted_first:
  "persisted_first [] (actions s) \<Longrightarrow> persisted_first [] (actions (serve n ras s))"
  by (induction ras arbitrary: s) (simp_all add: on_end_persisted_first)

lemma map_snd_numbered: "map snd (numbered as) = as"
  by (simp add: numbered_def)

lemma numbered_mem: "i < length as \<Longrightarrow> (i, as ! i) \<in> set (numbered as)"
  unfolding numbered_def by (simp add: in_set_zip) (metis add_0 nth_upt)


lemma serve_append: "serve n (xs @ ys) s = serve n ys (serve n xs s)"
  by (induction xs arbitrary: s) simp_all

lemma serve_last_wins:
  assumes "running s" and "\<forall>ra \<in> set (pre @ ra # post). \<not> write_fails (snd ra)"
    and "file_of n (snd ra) \<notin> set (map (\<lambda>ra. file_of n (snd ra)) post)"
  shows "files (serve n (pre @ ra # post) s) (file_of n (snd ra)) = Some (payload_of n (snd ra))"
proof -
  have ok: "\<forall>x \<in> set pre. \<not> write_fails (snd x)" using assms(2) by simp
  have run: "running (serve n pre s)"
    using serve_all_written[OF assms(1) ok] by simp
  have w: "\<not> write_fails (snd ra)" using assms(2) by simp
  have "files (serve n (pre @ ra # post) s) (file_of n (snd ra)) =
        files (on_end n ra (serve n pre s)) (file_of n (snd ra))"
    unfolding serve_append using serve_files_other[OF assms(3)] by simp
  then show ?thesis using run w by (simp add: on_end_def)
qed

lemma numbered_split:
  assumes "i < length as"
  shows "numbered as = take i (numbered as) @ (i, as ! i) # drop (Suc i) (numbered as)"
proof -
  have "i < length (numbered as)" using assms by (simp add: numbered_def)
  moreover have "numbered as ! i = (i, as ! i)" using assms by (simp add: numbered_def)
  ultimately show ?thesis by (metis id_take_nth_drop)
qed

lemma numbered_later:
  assumes "ra \<in> set (drop (Suc i) (numbered as))"
  shows "\<exists>j. i < j \<and> j < length as \<and> snd ra = as ! j"
proof -
  from assms obtain k where k: "k < length (drop (Suc i) (numbered as))"
    "ra = drop (Suc i) (numbered as) ! k"
    by (auto simp: in_set_conv_nth)
  then have "Suc i + k < length as" by (simp add: numbered_def)
  moreover have "ra = (Suc i + k, as ! (Suc i + k))"
    using k by (simp add: numbered_def)
  ultimately show ?thesis by (intro exI[of _ "Suc i + k"]) simp
qed

lemma file_of_eq_iff:
  assumes "utc_clock (end_time a)" and "utc_clock (end_time b)"
  shows "file_of n a = file_of n b \<longleftrightarrow> end_time a = end_time b \<and> req_method a = req_method b"
  using file_of_inj[OF assms] by (auto simp: file_of_def ts_of_def)

lemmas handler_defs = numbered_def listening_def on_end_def completed_def file_of_def ts_of_def
  replace_toISOString stamp_def path_join_def pad2 pad3 pad4 digit_def

section \<open>The pipeline: claims\<close>

text \<open>
  C1. In every run of the pipeline in which the diff stage finds no differences under
  \<^verbatim>\<open>docs\<close> (\<^verbatim>\<open>git diff --quiet -- docs\<close> was started and returned 0), the no-op line is the
  last line the script prints, on the output stream, the diff is the last command of the
  run, the exit status is 0, and neither \<^verbatim>\<open>git add\<close> nor \<^verbatim>\<open>git commit\<close> nor \<^verbatim>\<open>git push\<close>
  is started. In particular such a run, coming second after any run \<open>e1\<close>, adds no commit
  to the commits the first run created.
\<close>

theorem no_changes_is_noop:
  assumes "(GitDiffQuietDocs, 0) \<in> set (trace (auto_sync_deploy e))"
  shows "exit_code (auto_sync_deploy e) = 0 \<and>
         last (printed (auto_sync_deploy e)) =
           (Stdout, ''[auto-sync] no changes in docs, nothing to commit'') \<and>
         last (trace (auto_sync_deploy e)) = (GitDiffQuietDocs, 0) \<and>
         \<not> invoked GitAddDocs (trace (auto_sync_deploy e)) \<and>
         (\<forall>m. \<not> invoked (GitCommit m) (trace (auto_sync_deploy e))) \<and>
         \<not> invoked GitPush (trace (auto_sync_deploy e)) \<and>
         (\<forall>e1. commits_created (trace (auto_sync_deploy e1) @ trace (auto_sync_deploy e)) =
               commits_created (trace (auto_sync_deploy e1)))"
proof -
  have "commits_created (trace (auto_sync_deploy e)) = []"
    using assms by (auto simp: stage_defs split: if_splits)
  then have twice: "\<forall>e1. commits_created (trace (auto_sync_deploy e1) @ trace (auto_sync_deploy e)) =
               commits_created (trace (auto_sync_deploy e1))"
    by (simp add: commits_created_append)
  have "exit_code (auto_sync_deploy e) = 0 \<and>
         last (printed (auto_sync_deploy e)) =
           (Stdout, ''[auto-sync] no changes in docs, nothing to commit'') \<and>
         last (trace (auto_sync_deploy e)) = (GitDiffQuietDocs, 0) \<and>
         \<not> invoked GitAddDocs (trace (auto_sync_deploy e)) \<and>
         (\<forall>m. \<not> invoked (GitCommit m) (trace (auto_sync_deploy e))) \<and>
         \<not> invoked GitPush (trace (auto_sync_deploy e))"
    using assms by (auto simp: stage_defs LOG_PREFIX_def split: if_splits)
  with twice show ?thesis by blast
qed

text \<open>
  A run at which the hypothesis holds: every command succeeds and nothing differs under
  \<^verbatim>\<open>docs\<close>. Coming after a run that committed, it leaves that one commit alone.
\<close>

theorem no_changes_is_noop_witness:
  "(GitDiffQuietDocs, 0) \<in> set (trace (auto_sync_deploy env_unchanged)) \<and>
   exit_code (auto_sync_deploy env_unchanged) = 0 \<and>
   \<not> invoked GitPush (trace (auto_sync_deploy env_unchanged)) \<and>
   commits_created (trace (auto_sync_deploy env_changed) @ trace (auto_sync_deploy env_unchanged)) =
     [''Auto update notes 2026-11-02 04:35:07'']"
proof -
  have h: "(GitDiffQuietDocs, 0) \<in> set (trace (auto_sync_deploy env_unchanged))"
    by (simp add: env_unchanged_def env_changed_def stage_defs)
  have c: "commits_created (trace (auto_sync_deploy env_changed)) =
     [''Auto update notes 2026-11-02 04:35:07'']"
    by (simp add: env_changed_def stage_defs COMMIT_MSG_def commit_format_def conversion_def
        pad2 dec_four_digits pad4 digit_def)
  show ?thesis using h c no_changes_is_noop[OF h] by simp
qed

text \<open>
  C2, as amended. In every run in which the sync stage fails (\<^verbatim>\<open>npm run sync-bear\<close> was
  started and returned a status other than 0), the last line of the run is
  \<^verbatim>\<open>[auto-sync] sync-bear FAILED\<close> on the error stream, the exit status is 1, and build,
  diff, add, commit and push are never started. In every run in which the build stage
  fails, the sync stage had returned 0, the last line is \<^verbatim>\<open>[auto-sync] build FAILED\<close> on
  the error stream, the exit status is 1, and diff, add, commit and push are never
  started. The claim as stated quotes the first message as \<^verbatim>\<open>sync FAILED\<close>; the script
  names the stage \<^verbatim>\<open>sync-bear\<close> in it.
\<close>

theorem fail_fast_sync_build:
  "((NpmRunSyncBear, st) \<in> set (trace (auto_sync_deploy e)) \<and> st \<noteq> 0 \<longrightarrow>
      exit_code (auto_sync_deploy e) = 1 \<and>
      last (printed (auto_sync_deploy e)) = (Stderr, ''[auto-sync] sync-bear FAILED'') \<and>
      logged Stderr ''sync-bear FAILED'' (printed (auto_sync_deploy e)) \<and>
      \<not> invoked NpmRunBuild (trace (auto_sync_deploy e)) \<and>
      \<not> invoked GitDiffQuietDocs (trace (auto_sync_deploy e)) \<and>
      \<not> invoked GitAddDocs (trace (auto_sync_deploy e)) \<and>
      (\<forall>m. \<not> invoked (GitCommit m) (trace (auto_sync_deploy e))) \<and>
      \<not> invoked GitPush (trace (auto_sync_deploy e))) \<and>
   ((NpmRunBuild, st) \<in> set (trace (auto_sync_deploy e)) \<and> st \<noteq> 0 \<longrightarrow>
      (NpmRunSyncBear, 0) \<in> set (trace (auto_sync_deploy e)) \<and>
      exit_code (auto_sync_deploy e) = 1 \<and>
      last (printed (auto_sync_deploy e)) = (Stderr, ''[auto-sync] build FAILED'') \<and>
      logged Stderr ''build FAILED'' (printed (auto_sync_deploy e)) \<and>
      \<not> invoked GitDiffQuietDocs (trace (auto_sync_deploy e)) \<and>
      \<not> invoked GitAddDocs (trace (auto_sync_deploy e)) \<and>
      (\<forall>m. \<not> invoked (GitCommit m) (trace (auto_sync_deploy e))) \<and>
      \<not> invoked GitPush (trace (auto_sync_deploy e)))"
  by (auto simp: stage_defs LOG_PREFIX_def split: if_splits)

text \<open>A run in which the sync stage fails, and one in which the build stage fails.\<close>

theorem fail_fast_sync_build_witness:
  "((NpmRunSyncBear, 1) \<in> set (trace (auto_sync_deploy env_sync_fails)) \<and>
    exit_code (auto_sync_deploy env_sync_fails) = 1 \<and>
    \<not> invoked NpmRunBuild (trace (auto_sync_deploy env_sync_fails))) \<and>
   ((NpmRunBuild, 1) \<in> set (trace (auto_sync_deploy env_build_fails)) \<and>
    exit_code (auto_sync_deploy env_build_fails) = 1 \<and>
    \<not> invoked GitPush (trace (auto_sync_deploy env_build_fails)))"
proof -
  have s: "(NpmRunSyncBear, 1) \<in> set (trace (auto_sync_deploy env_sync_fails))"
    by (simp add: env_sync_fails_def env_changed_def stage_defs)
  have b: "(NpmRunBuild, 1) \<in> set (trace (auto_sync_deploy env_build_fails))"
    by (simp add: env_build_fails_def env_changed_def stage_defs)
  show ?thesis
    using s b fail_fast_sync_build[of 1 env_sync_fails] fail_fast_sync_build[of 1 env_build_fails]
    by simp
qed

text \<open>
  The claim as stated fails at the run in which \<^verbatim>\<open>npm run sync-bear\<close> returns 1: the two
  lines below are all the run prints, and no line on the error stream contains
  \<^verbatim>\<open>sync FAILED\<close>.
\<close>

theorem sync_failure_line_counterexample:
  "(NpmRunSyncBear, 1) \<in> set (trace (auto_sync_deploy env_sync_fails)) \<and>
   printed (auto_sync_deploy env_sync_fails) =
     [(Stdout, ''[auto-sync] Starting at Mon Nov  2 04:35:00 JST 2026''),
      (Stderr, ''[auto-sync] sync-bear FAILED'')] \<and>
   \<not> logged Stderr ''sync FAILED'' (printed (auto_sync_deploy env_sync_fails))"
  by (simp add: env_sync_fails_def env_changed_def stage_defs LOG_PREFIX_def)

text \<open>
  C4. In every run that ends with status 0 after the diff stage found differences, read
  at a wall-clock time: \<^verbatim>\<open>git commit\<close> is started exactly once and returns 0, so the run
  creates exactly one commit; its message is \<^verbatim>\<open>Auto update notes\<close>, a blank, and the local
  date and time that line 35 reads, printed as \<^verbatim>\<open>YYYY-MM-DD HH:MM:SS\<close>; \<^verbatim>\<open>git push\<close> is
  started exactly once; and add, commit and push are the last three commands of the run,
  in this order.
\<close>

theorem changed_run_commits_once:
  assumes "exit_code (auto_sync_deploy e) = 0"
    and "(GitDiffQuietDocs, st) \<in> set (trace (auto_sync_deploy e))" and "st \<noteq> 0"
    and "wall_clock (now e)"
  shows "filter is_commit (trace (auto_sync_deploy e)) = [(GitCommit (COMMIT_MSG e), 0)] \<and>
         commits_created (trace (auto_sync_deploy e)) = [COMMIT_MSG e] \<and>
         filter is_push (trace (auto_sync_deploy e)) = [(GitPush, 0)] \<and>
         (\<exists>pre. trace (auto_sync_deploy e) =
                  pre @ [(GitAddDocs, 0), (GitCommit (COMMIT_MSG e), 0), (GitPush, 0)]) \<and>
         COMMIT_MSG e = ''Auto update notes '' @ strftime commit_format (now e) \<and>
         matches_template ''YYYY-MM-DD HH:MM:SS'' (strftime commit_format (now e)) \<and>
         strftime commit_format (now e) =
           pad 4 (year (now e)) @ ''-'' @ pad 2 (month (now e)) @ ''-'' @ pad 2 (day (now e)) @
           '' '' @ pad 2 (hour (now e)) @ '':'' @ pad 2 (minute (now e)) @ '':'' @
           pad 2 (second (now e))"
proof -
  have run: "filter is_commit (trace (auto_sync_deploy e)) = [(GitCommit (COMMIT_MSG e), 0)] \<and>
         commits_created (trace (auto_sync_deploy e)) = [COMMIT_MSG e] \<and>
         filter is_push (trace (auto_sync_deploy e)) = [(GitPush, 0)] \<and>
         (\<exists>pre. trace (auto_sync_deploy e) =
                  pre @ [(GitAddDocs, 0), (GitCommit (COMMIT_MSG e), 0), (GitPush, 0)])"
    using assms(1,2,3) by (auto simp: stage_defs split: if_splits)
  have y: "dec (year (now e)) = pad 4 (year (now e))"
    using assms(4) by (intro dec_four_digits) (simp_all add: wall_clock_def)
  have fmt: "strftime commit_format (now e) =
           pad 4 (year (now e)) @ ''-'' @ pad 2 (month (now e)) @ ''-'' @ pad 2 (day (now e)) @
           '' '' @ pad 2 (hour (now e)) @ '':'' @ pad 2 (minute (now e)) @ '':'' @
           pad 2 (second (now e))"
    unfolding strftime_commit_format y ..
  show ?thesis
    using run fmt stamp_matches[OF assms(4)] by (simp add: COMMIT_MSG_def)
qed

text \<open>A run with changed content in which every command succeeds.\<close>

theorem changed_run_commits_once_witness:
  "exit_code (auto_sync_deploy env_changed) = 0 \<and>
   (GitDiffQuietDocs, 1) \<in> set (trace (auto_sync_deploy env_changed)) \<and>
   wall_clock (now env_changed) \<and>
   commits_created (trace (auto_sync_deploy env_changed)) =
     [''Auto update notes 2026-11-02 04:35:07''] \<and>
   filter is_push (trace (auto_sync_deploy env_changed)) = [(GitPush, 0)]"
proof -
  have a: "exit_code (auto_sync_deploy env_changed) = 0"
    by (simp add: env_changed_def stage_defs)
  have b: "(GitDiffQuietDocs, 1) \<in> set (trace (auto_sync_deploy env_changed))"
    by (simp add: env_changed_def stage_defs)
  have c: "wall_clock (now env_changed)"
    by (simp add: env_changed_def wall_clock_def)
  have d: "COMMIT_MSG env_changed = ''Auto update notes 2026-11-02 04:35:07''"
    by (simp add: env_changed_def COMMIT_MSG_def commit_format_def conversion_def
        pad2 dec_four_digits pad4 digit_def)
  show ?thesis
    using a b c d changed_run_commits_once[OF a b _ c] by simp
qed

text \<open>
  C6. The claim allows the exit statuses 0 and 1 only. \<^verbatim>\<open>git add docs\<close> on line 39 is
  not the condition of an \<^verbatim>\<open>if\<close>, unlike sync, build, commit and push: when it fails, for
  instance with the status 128 that git gives to a fatal error, \<^verbatim>\<open>set -e\<close> ends the
  script with that status, and the script prints no failure line. In the same way the
  exporter script ends with the status of \<^verbatim>\<open>python3\<close> on line 17, here 2.
\<close>

theorem git_add_failure_status:
  "exit_code (auto_sync_deploy env_add_fails) = 128 \<and>
   trace (auto_sync_deploy env_add_fails) =
     [(ResolveRoot, 0), (CdRoot, 0), (DatePlain, 0), (NpmRunSyncBear, 0), (NpmRunBuild, 0),
      (CdUp, 0), (GitDiffQuietDocs, 1), (DateFormat ''%Y-%m-%d %H:%M:%S'', 0),
      (GitAddDocs, 128)] \<and>
   \<not> logged Stderr ''fail'' (printed (auto_sync_deploy env_add_fails)) \<and>
   \<not> logged Stderr ''FAIL'' (printed (auto_sync_deploy env_add_fails)) \<and>
   x_exit (run_bear_export site_broken disk_exporter) = 2"
proof -
  have pipeline: "exit_code (auto_sync_deploy env_add_fails) = 128 \<and>
     trace (auto_sync_deploy env_add_fails) =
       [(ResolveRoot, 0), (CdRoot, 0), (DatePlain, 0), (NpmRunSyncBear, 0), (NpmRunBuild, 0),
        (CdUp, 0), (GitDiffQuietDocs, 1), (DateFormat ''%Y-%m-%d %H:%M:%S'', 0),
        (GitAddDocs, 128)] \<and>
     \<not> logged Stderr ''fail'' (printed (auto_sync_deploy env_add_fails)) \<and>
     \<not> logged Stderr ''FAIL'' (printed (auto_sync_deploy env_add_fails))"
    by (simp add: env_add_fails_def env_changed_def stage_defs LOG_PREFIX_def commit_format_def
        COMMIT_MSG_def conversion_def pad2 dec_four_digits pad4 digit_def)
  have exporter: "x_exit (run_bear_export site_broken disk_exporter) = 2"
    by (simp add: run_bear_export_def site_broken_def disk_exporter_def exporter_crashes_def
        OUT_DIR_def BACKUP_DIR_def PUBLIC_DIR_def EXPORT_SCRIPT_def is_file_def entry_def put_def)
  show ?thesis using pipeline exporter by simp
qed

section \<open>The exporter adapter and the asset relay: claims\<close>

text \<open>
  C7, as amended. In every run of the script that comes to the relay (line 20) with the
  image folder \<^verbatim>\<open>BearImages\<close> under the content directory, and in which \<^verbatim>\<open>mkdir -p\<close> of
  \<^verbatim>\<open>public/BearImages\<close> succeeds (it adds directories only): rsync runs,
  \<^verbatim>\<open>public/BearImages\<close> is a directory afterwards, and every regular file at any depth
  below the image folder is afterwards at the same relative path below
  \<^verbatim>\<open>public/BearImages\<close> with the same bytes, with two exceptions. A file whose
  destination is a regular file of the same size and modification time is skipped, and
  the destination keeps its bytes. A file whose destination is an occupied directory is
  refused, the destination stays, and the script ends with status 23; with no such file
  it ends with status 0. Every directory below the image folder is a directory at the
  destination, also where a regular file stood. Nothing becomes absent, and an entry
  with no counterpart below the image folder stays as it is.
\<close>

theorem relay_copies_images:
  assumes relay_runs: "TestDir (BEAR_IMAGES e) \<in> set (x_trace (run_bear_export e fs))"
    and images: "is_dir (after_export e fs) (BEAR_IMAGES e)"
    and mkdir_ok: "fst (mkdir_p [PUBLIC_IMAGES e] (after_export e fs))"
  shows "Rsync (BEAR_IMAGES e) (PUBLIC_IMAGES e) \<in> set (x_trace (run_bear_export e fs)) \<and>
         (\<forall>q. entry (before_rsync e fs) q = entry (after_export e fs) q \<or>
              (entry (after_export e fs) q = None \<and> entry (before_rsync e fs) q = Some Dir)) \<and>
         x_exit (run_bear_export e fs) =
           (if \<exists>p. p \<noteq> [] \<and> refused (before_rsync e fs) (BEAR_IMAGES e) (PUBLIC_IMAGES e) p
            then 23 else 0) \<and>
         is_dir (x_fs (run_bear_export e fs)) (PUBLIC_IMAGES e) \<and>
         (\<forall>p b t. p \<noteq> [] \<and> entry (before_rsync e fs) (BEAR_IMAGES e @ p) = Some (File b t) \<longrightarrow>
            (if quick_check (File b t) (entry (before_rsync e fs) (PUBLIC_IMAGES e @ p)) \<or>
                refused (before_rsync e fs) (BEAR_IMAGES e) (PUBLIC_IMAGES e) p
             then entry (x_fs (run_bear_export e fs)) (PUBLIC_IMAGES e @ p) =
                    entry (before_rsync e fs) (PUBLIC_IMAGES e @ p)
             else entry (x_fs (run_bear_export e fs)) (PUBLIC_IMAGES e @ p) =
                    Some (File b (clock e)))) \<and>
         (\<forall>p. p \<noteq> [] \<and> entry (before_rsync e fs) (BEAR_IMAGES e @ p) = Some Dir \<longrightarrow>
            entry (x_fs (run_bear_export e fs)) (PUBLIC_IMAGES e @ p) = Some Dir) \<and>
         (\<forall>q. entry (before_rsync e fs) q \<noteq> None \<longrightarrow>
            entry (x_fs (run_bear_export e fs)) q \<noteq> None) \<and>
         (\<forall>q. (\<forall>p. q = PUBLIC_IMAGES e @ p \<longrightarrow>
                   p = [] \<or> entry (before_rsync e fs) (BEAR_IMAGES e @ p) = None) \<longrightarrow>
            entry (x_fs (run_bear_export e fs)) q = entry (before_rsync e fs) q)"
proof -
  define fs2 where "fs2 = after_export e fs"
  define fs3 where "fs3 = before_rsync e fs"
  define src where "src = BEAR_IMAGES e"
  define dst where "dst = PUBLIC_IMAGES e"
  have fs3: "fs3 = snd (mkdir_p [dst] fs2)"
    unfolding fs3_def fs2_def dst_def before_rsync_def ..
  have reached: "Rsync (BEAR_IMAGES e) (PUBLIC_IMAGES e) \<in> set (x_trace (run_bear_export e fs))"
    using relay_runs images mkdir_ok
    by (auto simp: export_defs Let_def case_prod_unfold split: if_splits)
  have run: "is_dir fs2 src \<and> fst (mkdir_p [dst] fs2) \<and>
             x_fs (run_bear_export e fs) = snd (rsync_r (clock e) src dst fs3) \<and>
             x_exit (run_bear_export e fs) = fst (rsync_r (clock e) src dst fs3)"
    using reached unfolding fs2_def fs3_def src_def dst_def before_rsync_def
    by (auto simp: export_defs Let_def case_prod_unfold split: if_splits)
  have adds: "entry fs3 q = entry fs2 q \<or> (entry fs2 q = None \<and> entry fs3 q = Some Dir)" for q
    unfolding fs3 by (rule mkdir_p_only_adds)
  have status: "x_exit (run_bear_export e fs) =
      (if \<exists>p. p \<noteq> [] \<and> refused fs3 src dst p then 23 else 0)"
    using run by (simp add: status_rsync_r)
  have final: "entry (x_fs (run_bear_export e fs)) q =
      (case strip_prefix dst q of
        None \<Rightarrow> entry fs3 q
      | Some p \<Rightarrow>
          if p \<noteq> [] \<and> received fs3 src dst p
          then Some (arrives (clock e) (the (entry fs3 (src @ p)))) else entry fs3 q)" for q
    using run by (simp add: entry_rsync_r)
  have at_dst: "entry (x_fs (run_bear_export e fs)) (dst @ p) =
      (if p \<noteq> [] \<and> received fs3 src dst p
       then Some (arrives (clock e) (the (entry fs3 (src @ p)))) else entry fs3 (dst @ p))" for p
    unfolding final by (simp add: strip_prefix_append)
  have "entry fs3 dst = Some Dir"
    unfolding fs3 using run by (intro mkdir_p_creates) (simp_all add: dst_def PUBLIC_IMAGES_def)
  then have dir: "is_dir (x_fs (run_bear_export e fs)) dst"
    using at_dst[of "[]"] by (simp add: is_dir_def)
  have files: "if quick_check (File b t) (entry fs3 (dst @ p)) \<or> refused fs3 src dst p
      then entry (x_fs (run_bear_export e fs)) (dst @ p) = entry fs3 (dst @ p)
      else entry (x_fs (run_bear_export e fs)) (dst @ p) = Some (File b (clock e))"
    if "p \<noteq> []" "entry fs3 (src @ p) = Some (File b t)" for p b t
    unfolding at_dst using that by (simp add: received_def)
  have dirs: "entry (x_fs (run_bear_export e fs)) (dst @ p) = Some Dir"
    if "p \<noteq> []" "entry fs3 (src @ p) = Some Dir" for p
    unfolding at_dst using that by (simp add: received_def is_dir_def)
  have stay: "entry (x_fs (run_bear_export e fs)) q \<noteq> None" if "entry fs3 q \<noteq> None" for q
  proof (cases "strip_prefix dst q")
    case None
    then show ?thesis using that final[of q] by simp
  next
    case (Some p)
    show ?thesis
    proof (cases "p \<noteq> [] \<and> received fs3 src dst p")
      case True
      then show ?thesis using Some final[of q] by simp
    next
      case False
      then show ?thesis using Some that final[of q] by simp
    qed
  qed
  have frame: "entry (x_fs (run_bear_export e fs)) q = entry fs3 q"
    if "\<forall>p. q = dst @ p \<longrightarrow> p = [] \<or> entry fs3 (src @ p) = None" for q
  proof (cases "strip_prefix dst q")
    case None
    then show ?thesis using final[of q] by simp
  next
    case (Some p)
    then have "q = dst @ p" by (rule strip_prefix_Some)
    then have "p = [] \<or> entry fs3 (src @ p) = None"
      using that[rule_format, of p] by simp
    then have "\<not> (p \<noteq> [] \<and> received fs3 src dst p)"
      by (cases "p = []") (simp_all add: received_def)
    then show ?thesis using Some final[of q] by auto
  qed
  show ?thesis
  proof (intro conjI allI impI)
    show "Rsync (BEAR_IMAGES e) (PUBLIC_IMAGES e) \<in> set (x_trace (run_bear_export e fs))"
      by (rule reached)
    show "entry (before_rsync e fs) q = entry (after_export e fs) q \<or>
          (entry (after_export e fs) q = None \<and> entry (before_rsync e fs) q = Some Dir)" for q
      using adds[of q] unfolding fs2_def fs3_def .
    show "x_exit (run_bear_export e fs) =
           (if \<exists>p. p \<noteq> [] \<and> refused (before_rsync e fs) (BEAR_IMAGES e) (PUBLIC_IMAGES e) p
            then 23 else 0)"
      using status unfolding fs3_def src_def dst_def .
    show "is_dir (x_fs (run_bear_export e fs)) (PUBLIC_IMAGES e)"
      using dir unfolding dst_def .
    show "if quick_check (File b t) (entry (before_rsync e fs) (PUBLIC_IMAGES e @ p)) \<or>
                refused (before_rsync e fs) (BEAR_IMAGES e) (PUBLIC_IMAGES e) p
             then entry (x_fs (run_bear_export e fs)) (PUBLIC_IMAGES e @ p) =
                    entry (before_rsync e fs) (PUBLIC_IMAGES e @ p)
             else entry (x_fs (run_bear_export e fs)) (PUBLIC_IMAGES e @ p) =
                    Some (File b (clock e))"
      if "p \<noteq> [] \<and> entry (before_rsync e fs) (BEAR_IMAGES e @ p) = Some (File b t)" for p b t
      using files[of p b t] that unfolding fs3_def src_def dst_def by blast
    show "entry (x_fs (run_bear_export e fs)) (PUBLIC_IMAGES e @ p) = Some Dir"
      if "p \<noteq> [] \<and> entry (before_rsync e fs) (BEAR_IMAGES e @ p) = Some Dir" for p
      using dirs[of p] that unfolding fs3_def src_def dst_def by blast
    show "entry (x_fs (run_bear_export e fs)) q \<noteq> None"
      if "entry (before_rsync e fs) q \<noteq> None" for q
      using stay[of q] that unfolding fs3_def by blast
    show "entry (x_fs (run_bear_export e fs)) q = entry (before_rsync e fs) q"
      if "\<forall>p. q = PUBLIC_IMAGES e @ p \<longrightarrow>
                   p = [] \<or> entry (before_rsync e fs) (BEAR_IMAGES e @ p) = None" for q
      using frame[of q] that unfolding fs3_def src_def dst_def by blast
  qed
qed

text \<open>
  A run in which the exporter writes \<^verbatim>\<open>BearImages/a.png\<close> while \<^verbatim>\<open>public/BearImages\<close>
  holds \<^verbatim>\<open>old.png\<close> from an earlier run.
\<close>

theorem relay_copies_images_witness:
  "TestDir (BEAR_IMAGES site_image) \<in> set (x_trace (run_bear_export site_image disk_stale)) \<and>
   is_dir (after_export site_image disk_stale) (BEAR_IMAGES site_image) \<and>
   fst (mkdir_p [PUBLIC_IMAGES site_image] (after_export site_image disk_stale)) \<and>
   Rsync (BEAR_IMAGES site_image) (PUBLIC_IMAGES site_image)
     \<in> set (x_trace (run_bear_export site_image disk_stale)) \<and>
   entry (before_rsync site_image disk_stale) (BEAR_IMAGES site_image @ [''a.png'']) =
     Some (File ''PNG-a'' 7) \<and>
   entry (before_rsync site_image disk_stale) (PUBLIC_IMAGES site_image @ [''a.png'']) = None \<and>
   x_exit (run_bear_export site_image disk_stale) = 0 \<and>
   entry (x_fs (run_bear_export site_image disk_stale)) (PUBLIC_IMAGES site_image @ [''a.png'']) =
     Some (File ''PNG-a'' 9) \<and>
   entry (x_fs (run_bear_export site_image disk_stale)) (PUBLIC_IMAGES site_image @ [''old.png'']) =
     Some (File ''PNG-old'' 3)"
proof -
  have h1: "TestDir (BEAR_IMAGES site_image) \<in> set (x_trace (run_bear_export site_image disk_stale))"
    by code_simp
  have h2: "is_dir (after_export site_image disk_stale) (BEAR_IMAGES site_image)"
    by code_simp
  have h3: "fst (mkdir_p [PUBLIC_IMAGES site_image] (after_export site_image disk_stale))"
    by code_simp
  have before: "before_rsync site_image disk_stale =
     [([''site'', ''src'', ''content'', ''notes'', ''BearImages'', ''a.png''], File ''PNG-a'' 7),
      ([''site'', ''src'', ''content'', ''notes'', ''BearImages''], Dir),
      ([''site'', ''bear-sync-backup''], Dir),
      ([''site'', ''src'', ''content'', ''notes''], Dir),
      ([''site'', ''src'', ''content''], Dir), ([''site'', ''src''], Dir),
      ([''site'', ''public''], Dir), ([''site'', ''public'', ''BearImages''], Dir),
      ([''site'', ''public'', ''BearImages'', ''old.png''], File ''PNG-old'' 3),
      ([''site''], Dir), ([''Bear-Markdown-Export''], Dir),
      ([''Bear-Markdown-Export'', ''bear_export_sync.py''], File ''import sqlite3'' 1)]"
    by code_simp
  have src: "entry (before_rsync site_image disk_stale) (BEAR_IMAGES site_image @ [''a.png'']) =
     Some (File ''PNG-a'' 7)"
    unfolding before by (simp add: site_image_def site_defs entry_def)
  have dst: "entry (before_rsync site_image disk_stale) (PUBLIC_IMAGES site_image @ [''a.png'']) = None"
    unfolding before by (simp add: site_image_def site_defs entry_def)
  have free: "\<not> refused (before_rsync site_image disk_stale) (BEAR_IMAGES site_image)
      (PUBLIC_IMAGES site_image) [''a.png'']"
    using dst by (simp add: refused_def is_dir_def)
  have ok: "x_exit (run_bear_export site_image disk_stale) = 0"
    by code_simp
  have old: "entry (x_fs (run_bear_export site_image disk_stale))
      (PUBLIC_IMAGES site_image @ [''old.png'']) = Some (File ''PNG-old'' 3)"
    by code_simp
  note T = relay_copies_images[OF h1 h2 h3]
  from T have reached: "Rsync (BEAR_IMAGES site_image) (PUBLIC_IMAGES site_image)
     \<in> set (x_trace (run_bear_export site_image disk_stale))"
    by blast
  from T have "\<forall>p b t. p \<noteq> [] \<and>
      entry (before_rsync site_image disk_stale) (BEAR_IMAGES site_image @ p) = Some (File b t) \<longrightarrow>
      (if quick_check (File b t) (entry (before_rsync site_image disk_stale) (PUBLIC_IMAGES site_image @ p)) \<or>
          refused (before_rsync site_image disk_stale) (BEAR_IMAGES site_image) (PUBLIC_IMAGES site_image) p
       then entry (x_fs (run_bear_export site_image disk_stale)) (PUBLIC_IMAGES site_image @ p) =
              entry (before_rsync site_image disk_stale) (PUBLIC_IMAGES site_image @ p)
       else entry (x_fs (run_bear_export site_image disk_stale)) (PUBLIC_IMAGES site_image @ p) =
              Some (File b (clock site_image)))"
    by blast
  from this[rule_format, of "[''a.png'']" "''PNG-a''" 7] src dst free
  have new: "entry (x_fs (run_bear_export site_image disk_stale))
      (PUBLIC_IMAGES site_image @ [''a.png'']) = Some (File ''PNG-a'' 9)"
    by (simp add: site_image_def)
  show ?thesis using h1 h2 h3 reached src dst ok new old by simp
qed

text \<open>
  The claim as stated fails in four runs in which the image folder exists. With a regular
  file at \<^verbatim>\<open>public/BearImages\<close>, \<^verbatim>\<open>mkdir -p\<close> fails, the script ends with status 1 and
  \<^verbatim>\<open>a.png\<close> is not copied. With a destination \<^verbatim>\<open>a.png\<close> of the same size and time, the
  script ends with status 0 and the destination keeps other bytes than the source. With
  an occupied directory at the destination \<^verbatim>\<open>a.png\<close>, the script ends with status 23 and
  the directory stays. With a regular file \<^verbatim>\<open>note\<close> at the destination and a folder
  \<^verbatim>\<open>note\<close> in the source, the file is gone and a directory stands in its place.
\<close>

theorem relay_exceptions_counterexample:
  "(TestDir (BEAR_IMAGES site_image) \<in> set (x_trace (run_bear_export site_image disk_blocked)) \<and>
    is_dir (after_export site_image disk_blocked) (BEAR_IMAGES site_image) \<and>
    entry (x_fs (run_bear_export site_image disk_blocked))
      (BEAR_IMAGES site_image @ [''a.png'']) = Some (File ''PNG-a'' 7) \<and>
    \<not> fst (mkdir_p [PUBLIC_IMAGES site_image] (after_export site_image disk_blocked)) \<and>
    x_exit (run_bear_export site_image disk_blocked) = 1 \<and>
    entry (x_fs (run_bear_export site_image disk_blocked))
      (PUBLIC_IMAGES site_image @ [''a.png'']) = None) \<and>
   (is_dir (after_export site_image disk_same_stamp) (BEAR_IMAGES site_image) \<and>
    x_exit (run_bear_export site_image disk_same_stamp) = 0 \<and>
    entry (x_fs (run_bear_export site_image disk_same_stamp))
      (BEAR_IMAGES site_image @ [''a.png'']) = Some (File ''PNG-a'' 7) \<and>
    entry (x_fs (run_bear_export site_image disk_same_stamp))
      (PUBLIC_IMAGES site_image @ [''a.png'']) = Some (File ''PNG-z'' 7)) \<and>
   (is_dir (after_export site_image disk_folder_in_the_way) (BEAR_IMAGES site_image) \<and>
    x_exit (run_bear_export site_image disk_folder_in_the_way) = 23 \<and>
    entry (x_fs (run_bear_export site_image disk_folder_in_the_way))
      (PUBLIC_IMAGES site_image @ [''a.png'']) = Some Dir) \<and>
   (is_dir (after_export site_folder disk_file_in_the_way) (BEAR_IMAGES site_folder) \<and>
    entry disk_file_in_the_way (PUBLIC_IMAGES site_folder @ [''note'']) =
      Some (File ''a file named note'' 3) \<and>
    x_exit (run_bear_export site_folder disk_file_in_the_way) = 0 \<and>
    entry (x_fs (run_bear_export site_folder disk_file_in_the_way))
      (PUBLIC_IMAGES site_folder @ [''note'']) = Some Dir)"
proof -
  have blocked: "TestDir (BEAR_IMAGES site_image) \<in> set (x_trace (run_bear_export site_image disk_blocked)) \<and>
    is_dir (after_export site_image disk_blocked) (BEAR_IMAGES site_image) \<and>
    entry (x_fs (run_bear_export site_image disk_blocked))
      (BEAR_IMAGES site_image @ [''a.png'']) = Some (File ''PNG-a'' 7) \<and>
    \<not> fst (mkdir_p [PUBLIC_IMAGES site_image] (after_export site_image disk_blocked)) \<and>
    x_exit (run_bear_export site_image disk_blocked) = 1 \<and>
    entry (x_fs (run_bear_export site_image disk_blocked))
      (PUBLIC_IMAGES site_image @ [''a.png'']) = None"
    by code_simp
  have same: "is_dir (after_export site_image disk_same_stamp) (BEAR_IMAGES site_image) \<and>
    x_exit (run_bear_export site_image disk_same_stamp) = 0 \<and>
    entry (x_fs (run_bear_export site_image disk_same_stamp))
      (BEAR_IMAGES site_image @ [''a.png'']) = Some (File ''PNG-a'' 7) \<and>
    entry (x_fs (run_bear_export site_image disk_same_stamp))
      (PUBLIC_IMAGES site_image @ [''a.png'']) = Some (File ''PNG-z'' 7)"
    by code_simp
  have folder: "is_dir (after_export site_image disk_folder_in_the_way) (BEAR_IMAGES site_image) \<and>
    x_exit (run_bear_export site_image disk_folder_in_the_way) = 23 \<and>
    entry (x_fs (run_bear_export site_image disk_folder_in_the_way))
      (PUBLIC_IMAGES site_image @ [''a.png'']) = Some Dir"
    by code_simp
  have replaced: "is_dir (after_export site_folder disk_file_in_the_way) (BEAR_IMAGES site_folder) \<and>
    entry disk_file_in_the_way (PUBLIC_IMAGES site_folder @ [''note'']) =
      Some (File ''a file named note'' 3) \<and>
    x_exit (run_bear_export site_folder disk_file_in_the_way) = 0 \<and>
    entry (x_fs (run_bear_export site_folder disk_file_in_the_way))
      (PUBLIC_IMAGES site_folder @ [''note'']) = Some Dir"
    by code_simp
  show ?thesis using blocked same folder replaced by simp
qed

text \<open>
  C8, as amended. In every run of the script that reaches the relay step with no image
  folder under the content directory: the step is skipped (neither \<^verbatim>\<open>mkdir\<close> of
  \<^verbatim>\<open>public/BearImages\<close> nor \<^verbatim>\<open>rsync\<close> is run, the test is the last command), the exit
  status is 0, the script prints no error, and the file system is as the exporter left
  it. The public-asset directory is not left untouched by the run, though: line 10
  creates it when it is absent. That \<^verbatim>\<open>mkdir -p\<close> changes no entry that exists; it only
  puts directories where there was nothing.
\<close>

theorem no_images_relay_skipped:
  assumes "TestDir (BEAR_IMAGES e) \<in> set (x_trace (run_bear_export e fs))"
    and "\<not> is_dir (after_export e fs) (BEAR_IMAGES e)"
  shows "x_exit (run_bear_export e fs) = 0 \<and>
         x_stderr (run_bear_export e fs) = [] \<and>
         x_fs (run_bear_export e fs) = after_export e fs \<and>
         last (x_trace (run_bear_export e fs)) = TestDir (BEAR_IMAGES e) \<and>
         Mkdir [PUBLIC_IMAGES e] \<notin> set (x_trace (run_bear_export e fs)) \<and>
         Rsync (BEAR_IMAGES e) (PUBLIC_IMAGES e) \<notin> set (x_trace (run_bear_export e fs)) \<and>
         (\<forall>q. entry (after_startup e fs) q = entry fs q \<or>
              (entry fs q = None \<and> entry (after_startup e fs) q = Some Dir))"
proof -
  have frame: "\<forall>q. entry (after_startup e fs) q = entry fs q \<or>
              (entry fs q = None \<and> entry (after_startup e fs) q = Some Dir)"
    unfolding after_startup_def using mkdir_p_only_adds by blast
  have "x_exit (run_bear_export e fs) = 0 \<and>
         x_stderr (run_bear_export e fs) = [] \<and>
         x_fs (run_bear_export e fs) = after_export e fs \<and>
         last (x_trace (run_bear_export e fs)) = TestDir (BEAR_IMAGES e) \<and>
         Mkdir [PUBLIC_IMAGES e] \<notin> set (x_trace (run_bear_export e fs)) \<and>
         Rsync (BEAR_IMAGES e) (PUBLIC_IMAGES e) \<notin> set (x_trace (run_bear_export e fs))"
    using assms
    by (auto simp: export_defs Let_def case_prod_unfold split: if_splits)
  with frame show ?thesis by blast
qed

text \<open>A run with \<^verbatim>\<open>public\<close> in place and an exporter that exports nothing.\<close>

theorem no_images_relay_skipped_witness:
  "TestDir (BEAR_IMAGES site_quiet) \<in> set (x_trace (run_bear_export site_quiet disk_stale)) \<and>
   \<not> is_dir (after_export site_quiet disk_stale) (BEAR_IMAGES site_quiet) \<and>
   x_exit (run_bear_export site_quiet disk_stale) = 0 \<and>
   x_fs (run_bear_export site_quiet disk_stale) = after_export site_quiet disk_stale \<and>
   Rsync (BEAR_IMAGES site_quiet) (PUBLIC_IMAGES site_quiet)
     \<notin> set (x_trace (run_bear_export site_quiet disk_stale))"
proof -
  have b: "\<not> is_dir (after_export site_quiet disk_stale) (BEAR_IMAGES site_quiet)"
    by (simp add: after_export_def after_startup_def site_quiet_def disk_stale_def
        disk_exporter_def exports_nothing_def OUT_DIR_def BACKUP_DIR_def PUBLIC_DIR_def
        BEAR_IMAGES_def EXPORT_SCRIPT_def is_dir_def entry_def put_def)
  have a: "TestDir (BEAR_IMAGES site_quiet) \<in> set (x_trace (run_bear_export site_quiet disk_stale))"
    by (simp add: run_bear_export_def relay_def site_quiet_def disk_stale_def
        disk_exporter_def exports_nothing_def OUT_DIR_def BACKUP_DIR_def PUBLIC_DIR_def
        BEAR_IMAGES_def EXPORT_SCRIPT_def is_dir_def is_file_def entry_def put_def)
  show ?thesis
    using a b no_images_relay_skipped[OF a b] by blast
qed

text \<open>
  The claim as stated fails at a checkout without \<^verbatim>\<open>public\<close>: no image folder exists,
  the run ends with status 0, and \<^verbatim>\<open>public\<close> exists afterwards.
\<close>

theorem public_dir_created_counterexample:
  "x_exit (run_bear_export site_quiet disk_exporter) = 0 \<and>
   \<not> is_dir (after_export site_quiet disk_exporter) (BEAR_IMAGES site_quiet) \<and>
   entry disk_exporter (PUBLIC_DIR site_quiet) = None \<and>
   entry (x_fs (run_bear_export site_quiet disk_exporter)) (PUBLIC_DIR site_quiet) = Some Dir"
  by (simp add: run_bear_export_def relay_def after_export_def after_startup_def site_quiet_def
      disk_exporter_def exports_nothing_def OUT_DIR_def BACKUP_DIR_def PUBLIC_DIR_def
      BEAR_IMAGES_def EXPORT_SCRIPT_def is_dir_def is_file_def entry_def put_def)

text \<open>
  C9. Every run of the script starts with \<^verbatim>\<open>mkdir -p\<close> of the content, backup and
  public-asset directories. Whenever the check for the exporter script runs, it is the
  second command, and the three directories exist by then. On the path on which the
  exporter script is missing (the run prints the not-found line), the exit status is 1,
  these two commands are all the run does, and the three directories exist after the
  run; when one of them was absent before, the file system the run leaves differs from
  the one it found.
\<close>

theorem dirs_created_before_exporter_check:
  "hd (x_trace (run_bear_export e fs)) = Mkdir [OUT_DIR e, BACKUP_DIR e, PUBLIC_DIR e] \<and>
   (TestFile (EXPORT_SCRIPT e) \<in> set (x_trace (run_bear_export e fs)) \<longrightarrow>
      take 2 (x_trace (run_bear_export e fs)) =
        [Mkdir [OUT_DIR e, BACKUP_DIR e, PUBLIC_DIR e], TestFile (EXPORT_SCRIPT e)] \<and>
      is_dir (after_startup e fs) (OUT_DIR e) \<and> is_dir (after_startup e fs) (BACKUP_DIR e) \<and>
      is_dir (after_startup e fs) (PUBLIC_DIR e)) \<and>
   (x_stderr (run_bear_export e fs) = [not_found e] \<longrightarrow>
      x_exit (run_bear_export e fs) = 1 \<and>
      x_trace (run_bear_export e fs) =
        [Mkdir [OUT_DIR e, BACKUP_DIR e, PUBLIC_DIR e], TestFile (EXPORT_SCRIPT e)] \<and>
      x_fs (run_bear_export e fs) = after_startup e fs \<and>
      \<not> is_file (x_fs (run_bear_export e fs)) (EXPORT_SCRIPT e) \<and>
      is_dir (x_fs (run_bear_export e fs)) (OUT_DIR e) \<and>
      is_dir (x_fs (run_bear_export e fs)) (BACKUP_DIR e) \<and>
      is_dir (x_fs (run_bear_export e fs)) (PUBLIC_DIR e) \<and>
      (\<not> is_dir fs (OUT_DIR e) \<or> \<not> is_dir fs (BACKUP_DIR e) \<or> \<not> is_dir fs (PUBLIC_DIR e) \<longrightarrow>
         x_fs (run_bear_export e fs) \<noteq> fs))"
proof (cases "fst (mkdir_p [OUT_DIR e, BACKUP_DIR e, PUBLIC_DIR e] fs)")
  case False
  then show ?thesis
    by (simp add: export_defs Let_def case_prod_unfold)
next
  case True
  note dirs = startup_dirs[OF True]
  have first: "hd (x_trace (run_bear_export e fs)) = Mkdir [OUT_DIR e, BACKUP_DIR e, PUBLIC_DIR e]"
    and two: "take 2 (x_trace (run_bear_export e fs)) =
        [Mkdir [OUT_DIR e, BACKUP_DIR e, PUBLIC_DIR e], TestFile (EXPORT_SCRIPT e)]"
    using True by (simp_all add: export_defs Let_def case_prod_unfold)
  have failing: "x_stderr (run_bear_export e fs) = [not_found e] \<Longrightarrow>
      x_exit (run_bear_export e fs) = 1 \<and>
      x_trace (run_bear_export e fs) =
        [Mkdir [OUT_DIR e, BACKUP_DIR e, PUBLIC_DIR e], TestFile (EXPORT_SCRIPT e)] \<and>
      x_fs (run_bear_export e fs) = after_startup e fs \<and>
      \<not> is_file (x_fs (run_bear_export e fs)) (EXPORT_SCRIPT e)"
    using True by (auto simp: export_defs Let_def case_prod_unfold split: if_splits)
  have changed: "after_startup e fs \<noteq> fs"
    if "\<not> is_dir fs (OUT_DIR e) \<or> \<not> is_dir fs (BACKUP_DIR e) \<or> \<not> is_dir fs (PUBLIC_DIR e)"
    using that dirs by auto
  show ?thesis
    using first two dirs failing changed by auto
qed

text \<open>A bare checkout: the exporter is not installed and none of the directories exists.\<close>

theorem dirs_created_before_exporter_check_witness:
  "x_stderr (run_bear_export site_quiet disk_bare) = [not_found site_quiet] \<and>
   \<not> is_dir disk_bare (PUBLIC_DIR site_quiet) \<and>
   x_exit (run_bear_export site_quiet disk_bare) = 1 \<and>
   is_dir (x_fs (run_bear_export site_quiet disk_bare)) (OUT_DIR site_quiet) \<and>
   is_dir (x_fs (run_bear_export site_quiet disk_bare)) (BACKUP_DIR site_quiet) \<and>
   is_dir (x_fs (run_bear_export site_quiet disk_bare)) (PUBLIC_DIR site_quiet) \<and>
   x_fs (run_bear_export site_quiet disk_bare) \<noteq> disk_bare"
proof -
  have h: "x_stderr (run_bear_export site_quiet disk_bare) = [not_found site_quiet]"
    by (simp add: run_bear_export_def site_quiet_def disk_bare_def OUT_DIR_def BACKUP_DIR_def
        PUBLIC_DIR_def EXPORT_SCRIPT_def is_file_def entry_def put_def)
  have a: "\<not> is_dir disk_bare (PUBLIC_DIR site_quiet)"
    by (simp add: site_quiet_def disk_bare_def PUBLIC_DIR_def is_dir_def entry_def)
  show ?thesis
    using h a dirs_created_before_exporter_check[of site_quiet disk_bare] by blast
qed

section \<open>The callback capture listener: claims\<close>

text \<open>
  C3, as amended. For every sequence of N requests handled by a listener whose writes
  all succeed, with arbitrary paths, methods, headers and bodies, also when requests end
  in the same millisecond with the same method: the listener keeps running, it writes N
  times, once for each request and in their order, and every request is answered with
  status 200. The record of a request is in its file after the last request whenever no
  later request has the same file name. Two requests have the same file name exactly
  when they end in the same millisecond with the same method. So when these pairs are
  pairwise distinct, the N file names are distinct and every record is in its file (no
  record is overwritten); two requests that share the pair share one file.
\<close>

theorem requests_answered_files_by_stamp:
  assumes "\<forall>a \<in> set as. \<not> write_fails a"
  shows "running (serve n (numbered as) (listening fs)) \<and>
         written (actions (serve n (numbered as) (listening fs))) = map (file_of n) as \<and>
         (\<forall>i < length as. answered i (actions (serve n (numbered as) (listening fs)))) \<and>
         (\<forall>i < length as.
            (\<forall>j. i < j \<and> j < length as \<longrightarrow> file_of n (as ! j) \<noteq> file_of n (as ! i)) \<longrightarrow>
            files (serve n (numbered as) (listening fs)) (file_of n (as ! i)) =
              Some (payload_of n (as ! i))) \<and>
         (\<forall>a b. utc_clock (end_time a) \<and> utc_clock (end_time b) \<longrightarrow>
            (file_of n a = file_of n b \<longleftrightarrow>
             end_time a = end_time b \<and> req_method a = req_method b)) \<and>
         ((\<forall>a \<in> set as. utc_clock (end_time a)) \<and>
          distinct (map (\<lambda>a. (end_time a, req_method a)) as) \<longrightarrow>
            distinct (map (file_of n) as) \<and>
            (\<forall>i < length as.
               files (serve n (numbered as) (listening fs)) (file_of n (as ! i)) =
                 Some (payload_of n (as ! i))))"
proof -
  let ?ras = "numbered as"
  let ?s = "serve n ?ras (listening fs)"
  have snd_ras: "map snd ?ras = as" by (rule map_snd_numbered)
  have files_ras: "map (\<lambda>ra. file_of n (snd ra)) ?ras = map (file_of n) as"
    using arg_cong[OF snd_ras, of "map (file_of n)"] by (simp add: comp_def)
  have ok: "\<forall>ra \<in> set ?ras. \<not> write_fails (snd ra)"
  proof
    fix ra assume "ra \<in> set ?ras"
    then have "snd ra \<in> set as" using snd_ras by (metis image_eqI set_map)
    then show "\<not> write_fails (snd ra)" using assms by simp
  qed
  have run: "running (listening fs)" by (simp add: listening_def)
  note all = serve_all_written[OF run ok, of n]
  have w: "written (actions ?s) = map (file_of n) as"
    using all by (simp add: listening_def written_completed files_ras)
  have ans: "answered i (actions ?s)" if "i < length as" for i
  proof -
    have mem: "(i, as ! i) \<in> set ?ras" using that by (rule numbered_mem)
    have "answered (fst (i, as ! i)) (actions ?s)"
      using all answered_completed[OF mem, of n] by (simp add: answered_append)
    then show ?thesis by simp
  qed
  have last: "files ?s (file_of n (as ! i)) = Some (payload_of n (as ! i))"
    if i: "i < length as"
      and later: "\<forall>j. i < j \<and> j < length as \<longrightarrow> file_of n (as ! j) \<noteq> file_of n (as ! i)" for i
  proof -
    note split = numbered_split[OF i]
    have ok': "\<forall>ra \<in> set (take i ?ras @ (i, as ! i) # drop (Suc i) ?ras). \<not> write_fails (snd ra)"
      using ok split by simp
    have fresh: "file_of n (snd (i, as ! i)) \<notin>
        set (map (\<lambda>ra. file_of n (snd ra)) (drop (Suc i) ?ras))"
    proof
      assume "file_of n (snd (i, as ! i)) \<in> set (map (\<lambda>ra. file_of n (snd ra)) (drop (Suc i) ?ras))"
      then obtain ra where ra: "ra \<in> set (drop (Suc i) ?ras)"
        "file_of n (snd ra) = file_of n (as ! i)" by auto
      from numbered_later[OF ra(1)] obtain j where "i < j" "j < length as" "snd ra = as ! j"
        by blast
      with later ra(2) show False by auto
    qed
    have "files (serve n (take i ?ras @ (i, as ! i) # drop (Suc i) ?ras) (listening fs))
            (file_of n (snd (i, as ! i))) = Some (payload_of n (snd (i, as ! i)))"
      using run ok' fresh by (rule serve_last_wins)
    then show ?thesis using split by simp
  qed
  have names: "file_of n a = file_of n b \<longleftrightarrow> end_time a = end_time b \<and> req_method a = req_method b"
    if "utc_clock (end_time a) \<and> utc_clock (end_time b)" for a b
    using that file_of_eq_iff by blast
  have dist: "distinct (map (file_of n) as) \<and>
            (\<forall>i < length as. files ?s (file_of n (as ! i)) = Some (payload_of n (as ! i)))"
    if u: "\<forall>a \<in> set as. utc_clock (end_time a)"
      and d: "distinct (map (\<lambda>a. (end_time a, req_method a)) as)"
  proof -
    have inj: "inj_on (file_of n) (set as)"
    proof (rule inj_onI)
      fix a b assume ab: "a \<in> set as" "b \<in> set as" "file_of n a = file_of n b"
      then have "end_time a = end_time b \<and> req_method a = req_method b"
        using u names by blast
      then have "(\<lambda>a. (end_time a, req_method a)) a = (\<lambda>a. (end_time a, req_method a)) b"
        by simp
      with d ab show "a = b"
        by (meson distinct_map inj_onD)
    qed
    have dn: "distinct (map (file_of n) as)"
      using d inj by (auto simp: distinct_map)
    have "files ?s (file_of n (as ! i)) = Some (payload_of n (as ! i))" if "i < length as" for i
    proof (rule last[OF that], intro allI impI)
      fix j assume "i < j \<and> j < length as"
      then show "file_of n (as ! j) \<noteq> file_of n (as ! i)"
        using dn that by (auto simp: distinct_conv_nth)
    qed
    with dn show ?thesis by blast
  qed
  show ?thesis
    using all w ans last names dist by blast
qed

text \<open>
  Three requests with distinct pairs: two \<^verbatim>\<open>GET\<close> one millisecond apart, and a \<^verbatim>\<open>POST\<close> in
  the millisecond of the first. And two \<^verbatim>\<open>GET\<close> in the same millisecond: both are
  answered, and the file holds the record of the second.
\<close>

theorem requests_answered_files_by_stamp_witness:
  "\<not> write_fails get_a \<and> \<not> write_fails get_later \<and> \<not> write_fails post_c \<and>
   \<not> write_fails get_b \<and>
   utc_clock (end_time get_a) \<and> utc_clock (end_time get_later) \<and> utc_clock (end_time post_c) \<and>
   distinct (map (\<lambda>a. (end_time a, req_method a)) [get_a, get_later, post_c]) \<and>
   written (actions (serve node_site (numbered [get_a, get_later, post_c]) (listening Map.empty))) =
     [''/site/bear-callback-debug/2026-11-02T12-00-00-007Z-GET.log'',
      ''/site/bear-callback-debug/2026-11-02T12-00-00-008Z-GET.log'',
      ''/site/bear-callback-debug/2026-11-02T12-00-00-007Z-POST.log''] \<and>
   files (serve node_site (numbered [get_a, get_later, post_c]) (listening Map.empty))
     (file_of node_site get_a) = Some (payload_of node_site get_a) \<and>
   answered 2 (actions (serve node_site (numbered [get_a, get_later, post_c]) (listening Map.empty))) \<and>
   answered 0 (actions (serve node_site (numbered [get_a, get_b]) (listening Map.empty))) \<and>
   answered 1 (actions (serve node_site (numbered [get_a, get_b]) (listening Map.empty))) \<and>
   files (serve node_site (numbered [get_a, get_b]) (listening Map.empty))
     (file_of node_site get_b) = Some (payload_of node_site get_b)"
proof -
  have h1: "\<forall>a \<in> set [get_a, get_later, post_c]. \<not> write_fails a"
    by (simp add: get_a_def get_b_def get_later_def post_c_def)
  have h1': "\<forall>a \<in> set [get_a, get_b]. \<not> write_fails a"
    by (simp add: get_a_def get_b_def)
  have u: "\<forall>a \<in> set [get_a, get_later, post_c]. utc_clock (end_time a)"
    by (simp add: get_a_def get_b_def get_later_def post_c_def noon_def utc_clock_def)
  have h2: "distinct (map (\<lambda>a. (end_time a, req_method a)) [get_a, get_later, post_c])"
    by (simp add: get_a_def get_b_def get_later_def post_c_def noon_def)
  have names: "map (file_of node_site) [get_a, get_later, post_c] =
     [''/site/bear-callback-debug/2026-11-02T12-00-00-007Z-GET.log'',
      ''/site/bear-callback-debug/2026-11-02T12-00-00-008Z-GET.log'',
      ''/site/bear-callback-debug/2026-11-02T12-00-00-007Z-POST.log'']"
    by (simp add: handler_defs node_site_def get_a_def get_b_def get_later_def post_c_def noon_def)
  note T = requests_answered_files_by_stamp[OF h1, of node_site Map.empty]
  note T' = requests_answered_files_by_stamp[OF h1', of node_site Map.empty]
  from T have w: "written (actions (serve node_site (numbered [get_a, get_later, post_c]) (listening Map.empty))) =
          map (file_of node_site) [get_a, get_later, post_c]"
    by blast
  from T have ans: "\<forall>i < length [get_a, get_later, post_c].
      answered i (actions (serve node_site (numbered [get_a, get_later, post_c]) (listening Map.empty)))"
    by blast
  from T u h2 have each: "\<forall>i < length [get_a, get_later, post_c].
      files (serve node_site (numbered [get_a, get_later, post_c]) (listening Map.empty))
          (file_of node_site ([get_a, get_later, post_c] ! i)) =
          Some (payload_of node_site ([get_a, get_later, post_c] ! i))"
    by blast
  from T' have ans': "\<forall>i < length [get_a, get_b].
      answered i (actions (serve node_site (numbered [get_a, get_b]) (listening Map.empty)))"
    by blast
  from T' have last': "\<forall>i < length [get_a, get_b].
      (\<forall>j. i < j \<and> j < length [get_a, get_b] \<longrightarrow>
           file_of node_site ([get_a, get_b] ! j) \<noteq> file_of node_site ([get_a, get_b] ! i)) \<longrightarrow>
      files (serve node_site (numbered [get_a, get_b]) (listening Map.empty))
          (file_of node_site ([get_a, get_b] ! i)) =
          Some (payload_of node_site ([get_a, get_b] ! i))"
    by blast
  have f0: "files (serve node_site (numbered [get_a, get_later, post_c]) (listening Map.empty))
          (file_of node_site get_a) = Some (payload_of node_site get_a)"
    using each[rule_format, of 0] by simp
  have a2: "answered 2 (actions (serve node_site (numbered [get_a, get_later, post_c]) (listening Map.empty)))"
    using ans[rule_format, of 2] by simp
  have b0: "answered 0 (actions (serve node_site (numbered [get_a, get_b]) (listening Map.empty)))"
    using ans'[rule_format, of 0] by simp
  have b1: "answered 1 (actions (serve node_site (numbered [get_a, get_b]) (listening Map.empty)))"
    using ans'[rule_format, of 1] by simp
  have fb: "files (serve node_site (numbered [get_a, get_b]) (listening Map.empty))
          (file_of node_site get_b) = Some (payload_of node_site get_b)"
  proof -
    have none: "\<forall>j. 1 < j \<and> j < length [get_a, get_b] \<longrightarrow>
           file_of node_site ([get_a, get_b] ! j) \<noteq> file_of node_site ([get_a, get_b] ! 1)"
      by (intro allI impI, elim conjE, simp)
    have one: "(1::nat) < length [get_a, get_b]"
      by simp
    from last'[THEN spec, of 1, THEN mp, OF one, THEN mp, OF none] show ?thesis
      by simp
  qed
  show ?thesis using h1 h1' u h2 w f0 a2 b0 b1 fb unfolding names by simp
qed

text \<open>
  The claim as stated fails at two \<^verbatim>\<open>GET\<close> requests, for \<^verbatim>\<open>/a\<close> and \<^verbatim>\<open>/b\<close>, that end in the
  same millisecond: both writes go to one file, the directory holds one file and not two,
  and that file holds the record of the second request, which differs from the record of
  the first. It fails as well at a request whose write fails: that request is not
  answered.
\<close>

theorem same_millisecond_overwrite_counterexample:
  "end_time get_a = end_time get_b \<and> req_method get_a = req_method get_b \<and>
   \<not> write_fails get_a \<and> \<not> write_fails get_b \<and>
   written (actions (serve node_site (numbered [get_a, get_b]) (listening Map.empty))) =
     [''/site/bear-callback-debug/2026-11-02T12-00-00-007Z-GET.log'',
      ''/site/bear-callback-debug/2026-11-02T12-00-00-007Z-GET.log''] \<and>
   dom (files (serve node_site (numbered [get_a, get_b]) (listening Map.empty))) =
     {''/site/bear-callback-debug/2026-11-02T12-00-00-007Z-GET.log''} \<and>
   files (serve node_site (numbered [get_a, get_b]) (listening Map.empty))
     ''/site/bear-callback-debug/2026-11-02T12-00-00-007Z-GET.log'' =
     Some (payload_of node_site get_b) \<and>
   payload_of node_site get_a \<noteq> payload_of node_site get_b \<and>
   \<not> answered 0 (actions (serve node_site (numbered [get_disk_full]) (listening Map.empty)))"
proof -
  have names: "file_of node_site get_a = ''/site/bear-callback-debug/2026-11-02T12-00-00-007Z-GET.log''"
    "file_of node_site get_b = ''/site/bear-callback-debug/2026-11-02T12-00-00-007Z-GET.log''"
    by (simp_all add: handler_defs node_site_def get_a_def get_b_def noon_def)
  have run: "serve node_site (numbered [get_a, get_b]) (listening Map.empty) =
     \<lparr>files = Map.empty(file_of node_site get_a \<mapsto> payload_of node_site get_a,
                        file_of node_site get_b \<mapsto> payload_of node_site get_b),
      actions = completed node_site 0 get_a @ completed node_site 1 get_b,
      running = True\<rparr>"
    by (simp add: numbered_def listening_def on_end_def get_a_def get_b_def)
  have differ: "payload_of node_site get_a \<noteq> payload_of node_site get_b"
    by (simp add: payload_of_def JSON_stringify_def quote_def escape_def get_a_def get_b_def)
  have dropped:
    "\<not> answered 0 (actions (serve node_site (numbered [get_disk_full]) (listening Map.empty)))"
    by (simp add: numbered_def listening_def on_end_def get_disk_full_def get_a_def)
  show ?thesis
    unfolding run using differ dropped
    by (simp add: names completed_def) (simp add: get_a_def get_b_def)
qed

text \<open>
  C5, as amended. For every request handled by a running listener, if writing the
  record of that request fails, then the exception of \<^verbatim>\<open>writeFileSync\<close> leaves the handler
  uncaught: the handler does nothing after it, the listener stops, and neither this
  request nor any request after it is answered. The claim as stated has the listener send
  the response and go on serving; the program contains no handler for the exception.
\<close>

theorem write_failure_stops_listener:
  assumes "running s" and "write_fails a"
  shows "on_end n (rid, a) s = s\<lparr>actions := actions s @ [Threw rid], running := False\<rparr> \<and>
         serve n ((rid, a) # ras) s = on_end n (rid, a) s \<and>
         \<not> running (serve n ((rid, a) # ras) s) \<and>
         (\<forall>r. answered r (actions (serve n ((rid, a) # ras) s)) = answered r (actions s))"
proof -
  have step: "on_end n (rid, a) s = s\<lparr>actions := actions s @ [Threw rid], running := False\<rparr>"
    using assms by (simp add: on_end_def)
  then have stopped: "\<not> running (on_end n (rid, a) s)" by simp
  have rest: "serve n ((rid, a) # ras) s = on_end n (rid, a) s"
    using serve_stopped[OF stopped] by simp
  show ?thesis
    unfolding rest using step by (simp add: answered_append)
qed

text \<open>A request whose write fails, followed by one whose write would succeed.\<close>

theorem write_failure_stops_listener_witness:
  "running (listening Map.empty) \<and> write_fails get_disk_full \<and>
   actions (serve node_site ((0, get_disk_full) # [(1, get_b)]) (listening Map.empty)) = [Threw 0] \<and>
   \<not> running (serve node_site ((0, get_disk_full) # [(1, get_b)]) (listening Map.empty)) \<and>
   \<not> answered 0 (actions (serve node_site ((0, get_disk_full) # [(1, get_b)]) (listening Map.empty))) \<and>
   \<not> answered 1 (actions (serve node_site ((0, get_disk_full) # [(1, get_b)]) (listening Map.empty)))"
proof -
  have a: "running (listening Map.empty)" by (simp add: listening_def)
  have b: "write_fails get_disk_full" by (simp add: get_disk_full_def get_a_def)
  note T = write_failure_stops_listener[OF a b, of node_site 0 "[(1, get_b)]"]
  have r: "serve node_site ((0, get_disk_full) # [(1, get_b)]) (listening Map.empty) =
      (listening Map.empty)\<lparr>actions := actions (listening Map.empty) @ [Threw 0], running := False\<rparr>"
    by (simp only: T[THEN conjunct2, THEN conjunct1] T[THEN conjunct1])
  show ?thesis
    unfolding r using a b by (simp add: listening_def)
qed

text \<open>
  The claim as stated fails at the same two requests: the first is not answered, the
  listener is not running afterwards, and the second is not answered either.
\<close>

theorem write_failure_crash_counterexample:
  "write_fails get_disk_full \<and> \<not> write_fails get_b \<and>
   actions (serve node_site (numbered [get_disk_full, get_b]) (listening Map.empty)) = [Threw 0] \<and>
   \<not> answered 0 (actions (serve node_site (numbered [get_disk_full, get_b]) (listening Map.empty))) \<and>
   \<not> running (serve node_site (numbered [get_disk_full, get_b]) (listening Map.empty)) \<and>
   \<not> answered 1 (actions (serve node_site (numbered [get_disk_full, get_b]) (listening Map.empty)))"
  by (simp add: numbered_def listening_def on_end_def get_disk_full_def get_a_def get_b_def)

text \<open>
  C10. For every request handled by a running listener whose write succeeds, the handler
  does four things in this order: it writes the record file, logs the name of the file,
  sends the status 200 with its header, and sends the body \<^verbatim>\<open>ok\<close>. The file holds the
  payload when the handler is done, and the payload is the JSON text of the object with
  exactly the keys \<^verbatim>\<open>method\<close>, \<^verbatim>\<open>url\<close>, \<^verbatim>\<open>headers\<close> and \<^verbatim>\<open>body\<close>, the body being all chunks of
  the request concatenated and decoded. Over any sequence of requests, no response is
  sent to a request before the record of that request has been written.
\<close>

theorem record_written_before_response:
  assumes "running s" and "\<not> write_fails a"
  shows "actions (on_end n (rid, a) s) =
           actions s @ [Wrote rid (file_of n a) (payload_of n a), Logged (saved_line (file_of n a)),
                        Head rid 200 [(''Content-Type'', ''text/plain'')], Body rid ''ok''] \<and>
         files (on_end n (rid, a) s) (file_of n a) = Some (payload_of n a) \<and>
         payload_of n a =
           JSON_stringify
             (JObject [(''method'', JString (req_method a)), (''url'', JString (req_url a)),
                       (''headers'', JObject (req_headers a)),
                       (''body'', JString (toString_utf8 n (concat (data_events a))))]) \<and>
         (\<forall>ras fs. persisted_first [] (actions (serve n ras (listening fs))))"
proof -
  have "persisted_first [] (actions (serve n ras (listening fs)))" for ras fs
    by (rule serve_persisted_first) (simp add: listening_def)
  then show ?thesis
    using assms by (simp add: on_end_def completed_def payload_of_def body_of_def foldl_push)
qed

text \<open>A \<^verbatim>\<open>POST\<close> whose body arrives in two chunks.\<close>

theorem record_written_before_response_witness:
  "running (listening Map.empty) \<and> \<not> write_fails post_c \<and>
   actions (on_end node_site (0, post_c) (listening Map.empty)) =
     [Wrote 0 ''/site/bear-callback-debug/2026-11-02T12-00-00-007Z-POST.log''
        (payload_of node_site post_c),
      Logged (saved_line ''/site/bear-callback-debug/2026-11-02T12-00-00-007Z-POST.log''),
      Head 0 200 [(''Content-Type'', ''text/plain'')], Body 0 ''ok''] \<and>
   body_of node_site post_c = ''x-success=1'' \<and>
   persisted_first [] (actions (serve node_site (numbered [get_a, post_c]) (listening Map.empty)))"
proof -
  have a: "running (listening Map.empty)" by (simp add: listening_def)
  have b: "\<not> write_fails post_c" by (simp add: post_c_def get_a_def)
  have c: "actions (listening Map.empty) = []" by (simp add: listening_def)
  have f: "file_of node_site post_c = ''/site/bear-callback-debug/2026-11-02T12-00-00-007Z-POST.log''"
    by (simp add: handler_defs node_site_def get_a_def post_c_def noon_def)
  have d: "body_of node_site post_c = ''x-success=1''"
    by (simp add: body_of_def push_def node_site_def post_c_def get_a_def)
  show ?thesis
    using a b c d record_written_before_response[OF a b, of node_site 0] by (simp add: f)
qed

end
